theory Spec2Isabelle
  imports Main
begin

section \<open>JSON values and the JavaScript operations the daemon applies to them\<close>

text \<open>
  A decoded message is whatever \<^verbatim>\<open>JSON.parse\<close> returned. Numbers are restricted to
  integers (identifiers minted by the mux and by language servers are integers); a
  string is the list of its UTF-8 bytes; an object is its list of key/value pairs in
  key order, with distinct keys as \<^verbatim>\<open>JSON.parse\<close> produces them. A property that is
  \<^verbatim>\<open>undefined\<close> is \<open>None\<close>.
\<close>

datatype json =
    JNull
  | JBool bool
  | JNum int
  | JStr string
  | JArr "json list"
  | JObj "(string \<times> json) list"

type_synonym JsonRpcMessage = "(string \<times> json) list"

text \<open>\<^verbatim>\<open>msg.k\<close> on a message object.\<close>

definition get_prop :: "JsonRpcMessage \<Rightarrow> string \<Rightarrow> json option" where
  "get_prop m k = map_of m k"

text \<open>
  \<^verbatim>\<open>x?.k\<close>: \<^verbatim>\<open>undefined\<close> when \<open>x\<close> is \<^verbatim>\<open>undefined\<close> or \<^verbatim>\<open>null\<close>; on a
  boolean, number, string or array none of the keys the daemon reads exists.
\<close>

fun field :: "json option \<Rightarrow> string \<Rightarrow> json option" where
  "field (Some (JObj kvs)) k = map_of kvs k"
| "field _ k = None"

text \<open>\<^verbatim>\<open>x == null\<close>: true for \<^verbatim>\<open>undefined\<close> and for \<^verbatim>\<open>null\<close>.\<close>

fun nullish :: "json option \<Rightarrow> bool" where
  "nullish None = True"
| "nullish (Some JNull) = True"
| "nullish (Some _) = False"

text \<open>\<^verbatim>\<open>Boolean(x)\<close>, also the test of \<^verbatim>\<open>if (x)\<close> and \<^verbatim>\<open>!x\<close>.\<close>

fun truthy :: "json option \<Rightarrow> bool" where
  "truthy None = False"
| "truthy (Some JNull) = False"
| "truthy (Some (JBool b)) = b"
| "truthy (Some (JNum n)) = (n \<noteq> 0)"
| "truthy (Some (JStr s)) = (s \<noteq> [])"
| "truthy (Some (JArr xs)) = True"
| "truthy (Some (JObj kvs)) = True"

text \<open>\<^verbatim>\<open>{ ...m, k: v }\<close>: an existing key keeps its place, a new key goes last.\<close>

fun set_prop :: "string \<Rightarrow> json \<Rightarrow> JsonRpcMessage \<Rightarrow> JsonRpcMessage" where
  "set_prop k v [] = [(k, v)]"
| "set_prop k v ((k', v') # m) =
     (if k' = k then (k, v) # m else (k', v') # set_prop k v m)"

text \<open>
  An object literal as it reaches the wire: \<^verbatim>\<open>JSON.stringify\<close> leaves out every
  property whose value is \<^verbatim>\<open>undefined\<close>.
\<close>

fun literal :: "(string \<times> json option) list \<Rightarrow> JsonRpcMessage" where
  "literal [] = []"
| "literal ((k, None) # kvs) = literal kvs"
| "literal ((k, Some v) # kvs) = (k, v) # literal kvs"

text \<open>Decimal digits of a natural number, and of an integer.\<close>

definition digit_char :: "nat \<Rightarrow> char" where
  "digit_char d = char_of (48 + d)"

fun dec_nat :: "nat \<Rightarrow> string" where
  "dec_nat n = (if n < 10 then [digit_char n] else dec_nat (n div 10) @ [digit_char (n mod 10)])"

declare dec_nat.simps [simp del]

definition dec_int :: "int \<Rightarrow> string" where
  "dec_int i = (if i < 0 then CHR ''-'' # dec_nat (nat (- i)) else dec_nat (nat i))"

fun join_comma :: "string list \<Rightarrow> string" where
  "join_comma [] = []"
| "join_comma [s] = s"
| "join_comma (s # t # ss) = s @ '','' @ join_comma (t # ss)"

text \<open>\<^verbatim>\<open>String(x)\<close> for a value that is not \<^verbatim>\<open>undefined\<close>.\<close>

fun js_String :: "json \<Rightarrow> string" where
  "js_String JNull = ''null''"
| "js_String (JBool b) = (if b then ''true'' else ''false'')"
| "js_String (JNum n) = dec_int n"
| "js_String (JStr s) = s"
| "js_String (JArr xs) =
     join_comma (map (\<lambda>x. if x = JNull then [] else js_String x) xs)"
| "js_String (JObj kvs) = ''[object Object]''"

section \<open>The mux state\<close>

datatype DiagnosticMode = Passthrough | PullToPushBridge

text \<open>
  The fields of a server spec that the mux reads: \<^verbatim>\<open>diagnostics?.mode\<close>,
  \<^verbatim>\<open>diagnostics.buildRequest\<close> and \<^verbatim>\<open>hooks?.prepareInitialize\<close>.
\<close>

record ServerSpec =
  diagnostics_mode :: "DiagnosticMode option"
  buildRequest :: "(json \<Rightarrow> JsonRpcMessage) option"
  prepareInitialize :: "(JsonRpcMessage \<Rightarrow> JsonRpcMessage) option"

datatype InitState =
    Not_started
  | In_progress nat
  | Done "json option" "json option"

record PendingRequest =
  clientId :: nat
  originalId :: json

text \<open>
  A document URI as a key of the bridge's maps and sets. The type annotation says
  \<^verbatim>\<open>string\<close>, but the URI is whatever truthy value the notification carries. A
  \<^verbatim>\<open>Map\<close> or \<^verbatim>\<open>Set\<close> compares a string, a number or a boolean by value and an
  object or an array by identity. The URI of a notification is an object of that
  decoded message and of no other, so its identity is the serial number of the
  notification it arrived in.
\<close>

datatype uri_key = By_value json | By_identity nat json

fun uri_json :: "uri_key \<Rightarrow> json" where
  "uri_json (By_value uri) = uri"
| "uri_json (By_identity k uri) = uri"

fun uri_key_of :: "nat \<Rightarrow> json \<Rightarrow> uri_key" where
  "uri_key_of k (JArr xs) = By_identity k (JArr xs)"
| "uri_key_of k (JObj kvs) = By_identity k (JObj kvs)"
| "uri_key_of k uri = By_value uri"

datatype PendingInternalRequest = Bridge_pull_diagnostics uri_key

text \<open>
  The bridge's own fields. A debounce timer that is armed for a URI is membership in
  \<open>diagnosticDebounce\<close>; its expiry is an event of the mux.
\<close>

record DiagnosticsBridge =
  diagnosticDebounce :: "uri_key set"
  diagnosticsInFlight :: "uri_key set"
  lastPublishedDiagnostics :: "uri_key \<rightharpoonup> json list"
  pendingDiagnosticsAfterInit :: "uri_key list"
  initDone :: bool

text \<open>
  \<open>clients\<close> is the key sequence of the \<^verbatim>\<open>clients\<close> map in insertion order, which
  is the order \<^verbatim>\<open>broadcast\<close> and the election of a new primary iterate in.
  \<open>notificationsDecoded\<close> is no field of the class: it counts the client notifications
  handled so far and numbers the objects of the next one.
\<close>

record MuxState =
  spec :: ServerSpec
  nextClientId :: nat
  clients :: "nat list"
  primaryClientId :: "nat option"
  nextServerRequestId :: int
  pendingClientRequests :: "int \<rightharpoonup> PendingRequest"
  pendingInternalRequests :: "int \<rightharpoonup> PendingInternalRequest"
  clientSupportsPullDiagnostics :: "nat \<rightharpoonup> bool"
  diagnosticsBridge :: "DiagnosticsBridge option"
  nextForwardedServerReqId :: int
  pendingServerRequests :: "int \<rightharpoonup> json"
  init :: InitState
  queuedInitialize :: "(nat \<times> json) list"
  notificationsDecoded :: nat

text \<open>What a dispatch step writes, in order: to the server's stdin or to a client socket.\<close>

datatype emitted = ToServer JsonRpcMessage | ToClient nat JsonRpcMessage

definition usesDiagnosticsBridge :: "ServerSpec \<Rightarrow> bool" where
  "usesDiagnosticsBridge sp = (diagnostics_mode sp = Some PullToPushBridge)"

definition new_bridge :: DiagnosticsBridge where
  "new_bridge = \<lparr> diagnosticDebounce = {}, diagnosticsInFlight = {},
     lastPublishedDiagnostics = Map.empty, pendingDiagnosticsAfterInit = [],
     initDone = False \<rparr>"

definition new_mux :: "ServerSpec \<Rightarrow> MuxState" where
  "new_mux sp = \<lparr> spec = sp, nextClientId = 1, clients = [], primaryClientId = None,
     nextServerRequestId = 1, pendingClientRequests = Map.empty,
     pendingInternalRequests = Map.empty, clientSupportsPullDiagnostics = Map.empty,
     diagnosticsBridge = (if usesDiagnosticsBridge sp then Some new_bridge else None),
     nextForwardedServerReqId = - 1, pendingServerRequests = Map.empty,
     init = Not_started, queuedInitialize = [], notificationsDecoded = 0 \<rparr>"

section \<open>Writers and the capability bookkeeping\<close>

text \<open>
  \<^verbatim>\<open>writeToServer\<close> and each client's \<^verbatim>\<open>write\<close> frame the message and hand it to a
  FIFO writer; the model records the message and its destination.
\<close>

definition writeToServer :: "JsonRpcMessage \<Rightarrow> emitted list" where
  "writeToServer msg = [ToServer msg]"

definition broadcast :: "MuxState \<Rightarrow> JsonRpcMessage \<Rightarrow> emitted list" where
  "broadcast st msg = map (\<lambda>c. ToClient c msg) (clients st)"

text \<open>\<^verbatim>\<open>!this.clientSupportsPullDiagnostics.get(clientId)\<close>: a missing entry counts as false.\<close>

definition nonPull :: "MuxState \<Rightarrow> nat \<Rightarrow> bool" where
  "nonPull st c = (clientSupportsPullDiagnostics st c \<noteq> Some True)"

definition hasNonPullClients :: "MuxState \<Rightarrow> bool" where
  "hasNonPullClients st = list_ex (nonPull st) (clients st)"

definition publishDiagnostics :: "json \<Rightarrow> json list \<Rightarrow> JsonRpcMessage" where
  "publishDiagnostics uri diagnostics =
     [(''jsonrpc'', JStr ''2.0''),
      (''method'', JStr ''textDocument/publishDiagnostics''),
      (''params'', JObj [(''uri'', uri), (''diagnostics'', JArr diagnostics)])]"

definition publishDiagnosticsToNonPullClients ::
  "MuxState \<Rightarrow> json \<Rightarrow> json list \<Rightarrow> emitted list" where
  "publishDiagnosticsToNonPullClients st uri diagnostics =
     map (\<lambda>c. ToClient c (publishDiagnostics uri diagnostics))
         (filter (nonPull st) (clients st))"

definition respondWithCachedInit ::
  "MuxState \<Rightarrow> nat \<Rightarrow> json \<Rightarrow> json option \<Rightarrow> json option \<Rightarrow> emitted list" where
  "respondWithCachedInit st c i cached_result cached_error =
     (if c \<notin> set (clients st) then []
      else if \<not> nullish cached_error then
        [ToClient c (literal [(''jsonrpc'', Some (JStr ''2.0'')), (''id'', Some i),
                              (''error'', cached_error)])]
      else
        [ToClient c (literal [(''jsonrpc'', Some (JStr ''2.0'')), (''id'', Some i),
                              (''result'', cached_result)])])"

definition recordClientCapabilities :: "MuxState \<Rightarrow> nat \<Rightarrow> JsonRpcMessage \<Rightarrow> MuxState" where
  "recordClientCapabilities st c msg =
     (let caps = field (get_prop msg ''params'') ''capabilities'';
          hasPullDiagnostics = truthy (field (field caps ''textDocument'') ''diagnostic'')
      in st\<lparr>clientSupportsPullDiagnostics :=
              (clientSupportsPullDiagnostics st)(c \<mapsto> hasPullDiagnostics)\<rparr>)"

definition prepareInitializeForServer :: "MuxState \<Rightarrow> JsonRpcMessage \<Rightarrow> JsonRpcMessage" where
  "prepareInitializeForServer st msg =
     (case prepareInitialize (spec st) of Some hook \<Rightarrow> hook msg | None \<Rightarrow> msg)"

definition sendDiagnosticsRequest ::
  "MuxState \<Rightarrow> uri_key \<Rightarrow> JsonRpcMessage \<Rightarrow> MuxState \<times> emitted list" where
  "sendDiagnosticsRequest st uri msg =
     (let serverReqId = nextServerRequestId st
      in (st\<lparr>nextServerRequestId := serverReqId + 1,
              pendingInternalRequests :=
                (pendingInternalRequests st)(serverReqId \<mapsto> Bridge_pull_diagnostics uri)\<rparr>,
          writeToServer (set_prop ''id'' (JNum serverReqId) msg)))"

section \<open>The diagnostics bridge\<close>

text \<open>
  The bridge's methods, with the three callbacks it was constructed with
  (\<open>sendDiagnosticsRequest\<close>, \<open>publishDiagnosticsToNonPullClients\<close>,
  \<open>hasNonPullClients\<close>) in place. Every call from the mux is
  \<^verbatim>\<open>this.diagnosticsBridge?.f(...)\<close>: nothing happens when there is no bridge.
\<close>

text \<open>\<^verbatim>\<open>Set.prototype.add\<close> on an insertion-ordered set.\<close>

definition set_add :: "'a \<Rightarrow> 'a list \<Rightarrow> 'a list" where
  "set_add x xs = (if x \<in> set xs then xs else xs @ [x])"

definition schedule :: "MuxState \<Rightarrow> uri_key \<Rightarrow> MuxState" where
  "schedule st uri =
     (case diagnosticsBridge st of
        None \<Rightarrow> st
      | Some b \<Rightarrow>
          if \<not> hasNonPullClients st then st
          else if \<not> initDone b then
            st\<lparr>diagnosticsBridge := Some (b\<lparr>pendingDiagnosticsAfterInit :=
                  set_add uri (pendingDiagnosticsAfterInit b)\<rparr>)\<rparr>
          else
            st\<lparr>diagnosticsBridge := Some (b\<lparr>diagnosticDebounce :=
                  insert uri (diagnosticDebounce b)\<rparr>)\<rparr>)"

definition markInitDone :: "MuxState \<Rightarrow> MuxState" where
  "markInitDone st =
     (case diagnosticsBridge st of
        None \<Rightarrow> st
      | Some b \<Rightarrow>
          foldl schedule
            (st\<lparr>diagnosticsBridge := Some (b\<lparr>initDone := True,
                  pendingDiagnosticsAfterInit := []\<rparr>)\<rparr>)
            (pendingDiagnosticsAfterInit b))"

definition onDidClose :: "MuxState \<Rightarrow> uri_key \<Rightarrow> MuxState" where
  "onDidClose st uri =
     (case diagnosticsBridge st of
        None \<Rightarrow> st
      | Some b \<Rightarrow>
          st\<lparr>diagnosticsBridge := Some (b\<lparr>
                diagnosticDebounce := diagnosticDebounce b - {uri},
                lastPublishedDiagnostics := (lastPublishedDiagnostics b)(uri := None),
                pendingDiagnosticsAfterInit := removeAll uri (pendingDiagnosticsAfterInit b),
                diagnosticsInFlight := diagnosticsInFlight b - {uri}\<rparr>)\<rparr>)"

definition onFileEvent :: "MuxState \<Rightarrow> string \<Rightarrow> uri_key \<Rightarrow> MuxState" where
  "onFileEvent st method uri =
     (if method \<noteq> ''textDocument/didOpen'' \<and> method \<noteq> ''textDocument/didChange''
         \<and> method \<noteq> ''textDocument/didSave''
      then st else schedule st uri)"

definition default_request :: "json \<Rightarrow> JsonRpcMessage" where
  "default_request uri =
     [(''jsonrpc'', JStr ''2.0''),
      (''method'', JStr ''textDocument/diagnostic''),
      (''params'', JObj [(''textDocument'', JObj [(''uri'', uri)]),
                         (''identifier'', JNull), (''previousResultId'', JNull)])]"

definition request :: "MuxState \<Rightarrow> uri_key \<Rightarrow> MuxState \<times> emitted list" where
  "request st uri =
     (case diagnosticsBridge st of
        None \<Rightarrow> (st, [])
      | Some b \<Rightarrow>
          if uri \<in> diagnosticsInFlight b then (st, [])
          else if \<not> hasNonPullClients st then (st, [])
          else
            sendDiagnosticsRequest
              (st\<lparr>diagnosticsBridge := Some (b\<lparr>diagnosticsInFlight :=
                    insert uri (diagnosticsInFlight b)\<rparr>)\<rparr>)
              uri
              (case buildRequest (spec st) of
                 Some f \<Rightarrow> f (uri_json uri)
               | None \<Rightarrow> default_request (uri_json uri)))"

text \<open>The callback of the debounce timer; a timer that was cleared never fires.\<close>

definition debounceExpired :: "MuxState \<Rightarrow> uri_key \<Rightarrow> MuxState \<times> emitted list" where
  "debounceExpired st uri =
     (case diagnosticsBridge st of
        None \<Rightarrow> (st, [])
      | Some b \<Rightarrow>
          if uri \<notin> diagnosticDebounce b then (st, [])
          else request
                 (st\<lparr>diagnosticsBridge := Some (b\<lparr>diagnosticDebounce :=
                       diagnosticDebounce b - {uri}\<rparr>)\<rparr>)
                 uri)"

text \<open>\<^verbatim>\<open>Array.isArray(x)\<close>, with the elements when it holds.\<close>

fun as_array :: "json option \<Rightarrow> json list option" where
  "as_array (Some (JArr xs)) = Some xs"
| "as_array _ = None"

definition pulled_diagnostics ::
  "DiagnosticsBridge \<Rightarrow> uri_key \<Rightarrow> JsonRpcMessage \<Rightarrow> json list" where
  "pulled_diagnostics b uri msg =
     (let result = get_prop msg ''result'';
          kind = field result ''kind'';
          items = as_array (field result ''items'')
      in case (kind = Some (JStr ''full''), items) of
           (True, Some xs) \<Rightarrow> xs
         | _ \<Rightarrow>
             if kind = Some (JStr ''unchanged'') then
               (case lastPublishedDiagnostics b uri of Some d \<Rightarrow> d | None \<Rightarrow> [])
             else (case items of Some xs \<Rightarrow> xs | None \<Rightarrow> []))"

definition bridge_onServerResponse ::
  "MuxState \<Rightarrow> uri_key \<Rightarrow> JsonRpcMessage \<Rightarrow> MuxState \<times> emitted list" where
  "bridge_onServerResponse st uri msg =
     (case diagnosticsBridge st of
        None \<Rightarrow> (st, [])
      | Some b \<Rightarrow>
          let diagnostics = pulled_diagnostics b uri msg;
              st1 = st\<lparr>diagnosticsBridge := Some (b\<lparr>
                      diagnosticsInFlight := diagnosticsInFlight b - {uri},
                      lastPublishedDiagnostics :=
                        (lastPublishedDiagnostics b)(uri \<mapsto> diagnostics)\<rparr>)\<rparr>
          in if \<not> hasNonPullClients st1 then (st1, [])
             else (st1, publishDiagnosticsToNonPullClients st1 (uri_json uri) diagnostics))"

section \<open>Client to server\<close>

text \<open>\<^verbatim>\<open>x != null\<close> as a pattern: the value when it is neither \<^verbatim>\<open>undefined\<close> nor \<^verbatim>\<open>null\<close>.\<close>

fun present :: "json option \<Rightarrow> json option" where
  "present (Some JNull) = None"
| "present x = x"

definition handleInitialize ::
  "MuxState \<Rightarrow> nat \<Rightarrow> json \<Rightarrow> JsonRpcMessage \<Rightarrow> MuxState \<times> emitted list" where
  "handleInitialize st c i msg =
     (let st1 = recordClientCapabilities st c msg
      in case init st1 of
           Done cached_result cached_error \<Rightarrow>
             (st1, respondWithCachedInit st1 c i cached_result cached_error)
         | In_progress p \<Rightarrow>
             (st1\<lparr>queuedInitialize := queuedInitialize st1 @ [(c, i)]\<rparr>, [])
         | Not_started \<Rightarrow>
             let st2 = st1\<lparr>init := In_progress c,
                         primaryClientId :=
                           (if primaryClientId st1 = None then Some c
                            else primaryClientId st1)\<rparr>;
                 serverReqId = nextServerRequestId st2;
                 st3 = st2\<lparr>nextServerRequestId := serverReqId + 1,
                         pendingClientRequests := (pendingClientRequests st2)
                           (serverReqId \<mapsto> \<lparr>clientId = c, originalId = i\<rparr>)\<rparr>
             in (st3, writeToServer
                        (set_prop ''id'' (JNum serverReqId) (prepareInitializeForServer st3 msg))))"

definition onClientRequest ::
  "MuxState \<Rightarrow> nat \<Rightarrow> string \<Rightarrow> json \<Rightarrow> JsonRpcMessage \<Rightarrow> MuxState \<times> emitted list" where
  "onClientRequest st c method i msg =
     (if method = ''initialize'' then handleInitialize st c i msg
      else
        let serverReqId = nextServerRequestId st
        in (st\<lparr>nextServerRequestId := serverReqId + 1,
                pendingClientRequests := (pendingClientRequests st)
                  (serverReqId \<mapsto> \<lparr>clientId = c, originalId = i\<rparr>)\<rparr>,
            writeToServer (set_prop ''id'' (JNum serverReqId) msg)))"

definition onClientResponse ::
  "MuxState \<Rightarrow> nat \<Rightarrow> json \<Rightarrow> JsonRpcMessage \<Rightarrow> MuxState \<times> emitted list" where
  "onClientResponse st c i msg =
     (case i of
        JNum n \<Rightarrow>
          (case pendingServerRequests st n of
             None \<Rightarrow> (st, writeToServer msg)
           | Some serverId \<Rightarrow>
               (st\<lparr>pendingServerRequests := (pendingServerRequests st)(n := None)\<rparr>,
                writeToServer (set_prop ''id'' serverId msg)))
      | _ \<Rightarrow> (st, writeToServer msg))"

text \<open>
  \<^verbatim>\<open>params?.textDocument?.uri\<close>, kept only when it is truthy, as the key it is in the
  bridge's maps; \<open>k\<close> is the serial number of the notification.
\<close>

definition document_uri :: "nat \<Rightarrow> JsonRpcMessage \<Rightarrow> uri_key option" where
  "document_uri k msg =
     (let uri = field (field (get_prop msg ''params'') ''textDocument'') ''uri''
      in if truthy uri then map_option (uri_key_of k) uri else None)"

definition maybeTriggerDiagnosticsBridge :: "MuxState \<Rightarrow> string \<Rightarrow> JsonRpcMessage \<Rightarrow> MuxState" where
  "maybeTriggerDiagnosticsBridge st method msg =
     (if \<not> usesDiagnosticsBridge (spec st) then st
      else if method = ''textDocument/didOpen'' \<or> method = ''textDocument/didChange''
              \<or> method = ''textDocument/didSave''
      then (case document_uri (notificationsDecoded st) msg of
              None \<Rightarrow> st
            | Some uri \<Rightarrow> onFileEvent st method uri)
      else st)"

definition onClientNotification ::
  "MuxState \<Rightarrow> nat \<Rightarrow> string \<Rightarrow> JsonRpcMessage \<Rightarrow> MuxState \<times> emitted list" where
  "onClientNotification st c method msg =
     (let st1 = maybeTriggerDiagnosticsBridge st method msg;
          st2 = (if method = ''textDocument/didClose''
                 then (case document_uri (notificationsDecoded st) msg of
                         None \<Rightarrow> st1
                       | Some uri \<Rightarrow> onDidClose st1 uri)
                 else st1);
          st3 = st2\<lparr>notificationsDecoded := notificationsDecoded st + 1\<rparr>
      in if method = ''initialized''
         then (st3, if primaryClientId st3 = Some c then writeToServer msg else [])
         else (st3, writeToServer msg))"

definition onClientMessage :: "MuxState \<Rightarrow> nat \<Rightarrow> JsonRpcMessage \<Rightarrow> MuxState \<times> emitted list" where
  "onClientMessage st c msg =
     (case (present (get_prop msg ''method''), present (get_prop msg ''id'')) of
        (None, Some i) \<Rightarrow> onClientResponse st c i msg
      | (Some m, None) \<Rightarrow> onClientNotification st c (js_String m) msg
      | (Some m, Some i) \<Rightarrow> onClientRequest st c (js_String m) i msg
      | (None, None) \<Rightarrow> (st, writeToServer msg))"

section \<open>Server to client\<close>

definition onInternalServerResponse ::
  "MuxState \<Rightarrow> PendingInternalRequest \<Rightarrow> JsonRpcMessage \<Rightarrow> MuxState \<times> emitted list" where
  "onInternalServerResponse st internal msg =
     (case internal of Bridge_pull_diagnostics uri \<Rightarrow> bridge_onServerResponse st uri msg)"

definition flushQueuedInitialize :: "MuxState \<Rightarrow> MuxState \<times> emitted list" where
  "flushQueuedInitialize st =
     (case init st of
        Done cached_result cached_error \<Rightarrow>
          (st\<lparr>queuedInitialize := []\<rparr>,
           concat (map (\<lambda>(c, i). respondWithCachedInit st c i cached_result cached_error)
                       (queuedInitialize st)))
      | _ \<Rightarrow> (st, []))"

definition onServerResponse :: "MuxState \<Rightarrow> json \<Rightarrow> JsonRpcMessage \<Rightarrow> MuxState \<times> emitted list" where
  "onServerResponse st i msg =
     (case i of
        JNum n \<Rightarrow>
          (case pendingInternalRequests st n of
             Some internal \<Rightarrow>
               onInternalServerResponse
                 (st\<lparr>pendingInternalRequests := (pendingInternalRequests st)(n := None)\<rparr>)
                 internal msg
           | None \<Rightarrow>
               (case pendingClientRequests st n of
                  None \<Rightarrow> (st, broadcast st msg)
                | Some pending \<Rightarrow>
                    let st1 = st\<lparr>pendingClientRequests := (pendingClientRequests st)(n := None)\<rparr>;
                        (st2, flushed) =
                          (if init st1 = In_progress (clientId pending) then
                             let (st', out) = flushQueuedInitialize
                                   (st1\<lparr>init := Done (get_prop msg ''result'') (get_prop msg ''error'')\<rparr>)
                             in (markInitDone st', out)
                           else (st1, []))
                    in (st2, flushed @
                          (if clientId pending \<in> set (clients st2)
                           then [ToClient (clientId pending) (set_prop ''id'' (originalId pending) msg)]
                           else []))))
      | _ \<Rightarrow> (st, broadcast st msg))"

definition onServerRequest ::
  "MuxState \<Rightarrow> string \<Rightarrow> json \<Rightarrow> JsonRpcMessage \<Rightarrow> MuxState \<times> emitted list" where
  "onServerRequest st method i msg =
     (if method = ''client/registerCapability'' \<or> method = ''client/unregisterCapability'' then
        (st, writeToServer [(''jsonrpc'', JStr ''2.0''), (''id'', i), (''result'', JNull)])
      else if method = ''workspace/configuration'' then
        (let items = as_array (field (get_prop msg ''params'') ''items'');
             result = (case items of Some xs \<Rightarrow> map (\<lambda>_. JNull) xs | None \<Rightarrow> [])
         in (st, writeToServer [(''jsonrpc'', JStr ''2.0''), (''id'', i), (''result'', JArr result)]))
      else
        (case (case primaryClientId st of
                 Some p \<Rightarrow> if p \<in> set (clients st) then Some p else None
               | None \<Rightarrow> None) of
           None \<Rightarrow>
             (st, writeToServer
                    [(''jsonrpc'', JStr ''2.0''), (''id'', i),
                     (''error'', JObj [(''code'', JNum (- 32601)),
                                       (''message'', JStr ''No clients connected'')])])
         | Some target \<Rightarrow>
             let forwardedId = nextForwardedServerReqId st
             in (st\<lparr>nextForwardedServerReqId := forwardedId - 1,
                     pendingServerRequests := (pendingServerRequests st)(forwardedId \<mapsto> i)\<rparr>,
                 [ToClient target (set_prop ''id'' (JNum forwardedId) msg)])))"

definition onServerMessage :: "MuxState \<Rightarrow> JsonRpcMessage \<Rightarrow> MuxState \<times> emitted list" where
  "onServerMessage st msg =
     (case (present (get_prop msg ''method''), present (get_prop msg ''id'')) of
        (None, Some i) \<Rightarrow> onServerResponse st i msg
      | (Some m, None) \<Rightarrow> (st, broadcast st msg)
      | (Some m, Some i) \<Rightarrow> onServerRequest st (js_String m) i msg
      | (None, None) \<Rightarrow> (st, broadcast st msg))"

section \<open>Connections and the event loop\<close>

text \<open>
  \<^verbatim>\<open>addClient\<close> up to the registration of its handlers. The fresh id is not a key of
  \<^verbatim>\<open>clients\<close> yet, so \<^verbatim>\<open>Map.set\<close> puts it last.
\<close>

definition addClient :: "MuxState \<Rightarrow> MuxState" where
  "addClient st =
     (let c = nextClientId st
      in st\<lparr>nextClientId := c + 1,
             clients := clients st @ [c],
             clientSupportsPullDiagnostics := (clientSupportsPullDiagnostics st)(c \<mapsto> False),
             primaryClientId := (if primaryClientId st = None then Some c else primaryClientId st)\<rparr>)"

text \<open>The handler of the socket's \<^verbatim>\<open>close\<close> event (the idle timer aside).\<close>

definition onClose :: "MuxState \<Rightarrow> nat \<Rightarrow> MuxState" where
  "onClose st c =
     (let st1 = st\<lparr>clients := removeAll c (clients st),
                    clientSupportsPullDiagnostics := (clientSupportsPullDiagnostics st)(c := None)\<rparr>
      in if primaryClientId st1 = Some c
         then st1\<lparr>primaryClientId := (case clients st1 of [] \<Rightarrow> None | k # _ \<Rightarrow> Some k)\<rparr>
         else st1)"

datatype event =
    Accept
  | Close nat
  | FromClient nat JsonRpcMessage
  | FromServer JsonRpcMessage
  | DebounceExpired uri_key

fun dispatch :: "MuxState \<Rightarrow> event \<Rightarrow> MuxState \<times> emitted list" where
  "dispatch st Accept = (addClient st, [])"
| "dispatch st (Close c) = (onClose st c, [])"
| "dispatch st (FromClient c msg) = onClientMessage st c msg"
| "dispatch st (FromServer msg) = onServerMessage st msg"
| "dispatch st (DebounceExpired uri) = debounceExpired st uri"

text \<open>A run of the event loop: the final state and everything written, in order.\<close>

fun run :: "MuxState \<Rightarrow> event list \<Rightarrow> MuxState \<times> emitted list" where
  "run st [] = (st, [])"
| "run st (e # es) =
     (let (st1, out1) = dispatch st e; (st2, out2) = run st1 es in (st2, out1 @ out2))"

section \<open>The bundled server specs\<close>

text \<open>
  \<^verbatim>\<open>{ ...x }\<close> for a value that is not nullish: the own enumerable properties of an
  object, the indexed elements of an array or the characters of a string, nothing for
  a number or a boolean.
\<close>

fun spread :: "json \<Rightarrow> (string \<times> json) list" where
  "spread (JObj kvs) = kvs"
| "spread (JArr xs) = zip (map dec_nat [0..<length xs]) xs"
| "spread (JStr s) = zip (map dec_nat [0..<length s]) (map (\<lambda>c. JStr [c]) s)"
| "spread _ = []"

text \<open>\<^verbatim>\<open>x ?? {}\<close>\<close>

definition or_empty :: "json option \<Rightarrow> json" where
  "or_empty x = (case present x of Some v \<Rightarrow> v | None \<Rightarrow> JObj [])"

definition injectPullDiagnostics :: "JsonRpcMessage \<Rightarrow> JsonRpcMessage" where
  "injectPullDiagnostics msg =
     (let params = or_empty (get_prop msg ''params'');
          caps = or_empty (field (Some params) ''capabilities'');
          textDocument = or_empty (field (Some caps) ''textDocument'')
      in if truthy (field (Some textDocument) ''diagnostic'') then msg
         else set_prop ''params''
                (JObj (set_prop ''capabilities''
                  (JObj (set_prop ''textDocument''
                    (JObj (set_prop ''diagnostic''
                             (JObj [(''dynamicRegistration'', JBool False)])
                             (spread textDocument)))
                    (spread caps)))
                  (spread params)))
                msg)"

definition tsgoSpec :: ServerSpec where
  "tsgoSpec = \<lparr> diagnostics_mode = Some PullToPushBridge,
                 buildRequest = Some default_request,
                 prepareInitialize = Some injectPullDiagnostics \<rparr>"

definition oxlintSpec :: ServerSpec where
  "oxlintSpec = \<lparr> diagnostics_mode = Some Passthrough,
                   buildRequest = None,
                   prepareInitialize = None \<rparr>"

section \<open>The framer\<close>

definition CR :: char where "CR = CHR 0x0D"
definition LF :: char where "LF = CHR 0x0A"

definition CRLF :: string where "CRLF = [CR, LF]"

text \<open>\<^verbatim>\<open>buffer.indexOf(pat)\<close>: the first position where \<open>pat\<close> occurs, \<open>None\<close> for \<open>-1\<close>.\<close>

fun index_of :: "string \<Rightarrow> string \<Rightarrow> nat option" where
  "index_of pat [] = (if pat = [] then Some 0 else None)"
| "index_of pat (x # xs) =
     (if take (length pat) (x # xs) = pat then Some 0
      else map_option Suc (index_of pat xs))"

text \<open>
  \<^verbatim>\<open>buffer.slice(start, end)\<close> and \<^verbatim>\<open>buffer.slice(start)\<close>: a negative index counts
  from the end, every index is clamped to the buffer.
\<close>

definition clamp_index :: "nat \<Rightarrow> int \<Rightarrow> nat" where
  "clamp_index len i = (if i < 0 then nat (max (int len + i) 0) else min (nat i) len)"

definition js_slice :: "string \<Rightarrow> int \<Rightarrow> int \<Rightarrow> string" where
  "js_slice buf s e =
     (let s' = clamp_index (length buf) s; e' = clamp_index (length buf) e
      in take (e' - s') (drop s' buf))"

definition js_slice_from :: "string \<Rightarrow> int \<Rightarrow> string" where
  "js_slice_from buf s = drop (clamp_index (length buf) s) buf"

fun cons_first :: "char \<Rightarrow> string list \<Rightarrow> string list" where
  "cons_first x [] = [[x]]"
| "cons_first x (p # ps) = (x # p) # ps"

text \<open>\<^verbatim>\<open>s.split(":")\<close> and \<^verbatim>\<open>s.split("\r\n")\<close>.\<close>

fun split_colon :: "string \<Rightarrow> string list" where
  "split_colon [] = [[]]"
| "split_colon (x # xs) =
     (if x = CHR '':'' then [] # split_colon xs else cons_first x (split_colon xs))"

fun split_crlf :: "string \<Rightarrow> string list" where
  "split_crlf [] = [[]]"
| "split_crlf [x] = [[x]]"
| "split_crlf (x # y # xs) =
     (if x = CR \<and> y = LF then [] # split_crlf xs else cons_first x (split_crlf (y # xs)))"

text \<open>
  \<^verbatim>\<open>trim\<close> and \<^verbatim>\<open>toLowerCase\<close> on ASCII: the white space of the platform below
  \<open>U+0080\<close> is the space and the characters 9 to 13. A key with a byte outside ASCII
  is not \<open>content-length\<close> in any case.
\<close>

definition is_space :: "char \<Rightarrow> bool" where
  "is_space c = (c = CHR '' '' \<or> (9 \<le> (of_char c :: nat) \<and> (of_char c :: nat) \<le> 13))"

definition trim :: "string \<Rightarrow> string" where
  "trim s = rev (dropWhile is_space (rev (dropWhile is_space s)))"

definition to_lower :: "char \<Rightarrow> char" where
  "to_lower c = (if 65 \<le> (of_char c :: nat) \<and> (of_char c :: nat) \<le> 90
                 then char_of ((of_char c :: nat) + 32) else c)"

definition is_digit :: "char \<Rightarrow> bool" where
  "is_digit c = (48 \<le> (of_char c :: nat) \<and> (of_char c :: nat) \<le> 57)"

definition digits_value :: "string \<Rightarrow> int" where
  "digits_value s = foldl (\<lambda>a c. 10 * a + (int (of_char c) - 48)) 0 s"

text \<open>
  \<^verbatim>\<open>Number(s)\<close> on a trimmed ASCII string. The empty string is 0. An optionally
  signed run of decimal digits below \<open>2^53\<close> is its value, exactly. A string with a
  character that no numeric literal contains is \<^verbatim>\<open>NaN\<close>. Every other string (a
  fraction, an exponent, a radix prefix, \<^verbatim>\<open>Infinity\<close>, a longer run of digits) is
  left unevaluated: the model does not compute doubles.
\<close>

datatype js_number = Finite int | Not_finite | Unevaluated

definition numeric_char :: "char \<Rightarrow> bool" where
  "numeric_char c = (is_digit c \<or> c \<in> set ''+-.abcdefABCDEFxXoOInity'')"

definition unsigned_Number :: "string \<Rightarrow> js_number" where
  "unsigned_Number s =
     (if s \<noteq> [] \<and> list_all is_digit s \<and> digits_value s < 2 ^ 53
      then Finite (digits_value s) else Unevaluated)"

fun negated :: "js_number \<Rightarrow> js_number" where
  "negated (Finite n) = Finite (- n)"
| "negated x = x"

fun js_Number :: "string \<Rightarrow> js_number" where
  "js_Number [] = Finite 0"
| "js_Number (c # s) =
     (if \<not> list_all numeric_char (c # s) then Not_finite
      else if c = CHR ''-'' then negated (unsigned_Number s)
      else if c = CHR ''+'' then unsigned_Number s
      else unsigned_Number (c # s))"

text \<open>
  \<^verbatim>\<open>Number(v.trim())\<close> on the bytes of a header value. The platform decodes the header
  as UTF-8 and trims Unicode white space, so a value with a byte outside ASCII is left
  unevaluated as well.
\<close>

definition is_ascii :: "char \<Rightarrow> bool" where
  "is_ascii c = ((of_char c :: nat) < 128)"

definition Number_of_value :: "string \<Rightarrow> js_number" where
  "Number_of_value v = (if list_all is_ascii v then js_Number (trim v) else Unevaluated)"

text \<open>
  The result of \<^verbatim>\<open>parseContentLength\<close>: a number, \<^verbatim>\<open>null\<close>, or a literal of the
  header that the model leaves unevaluated.
\<close>

datatype content_length = Length int | Null | Unevaluated_length

fun finite_or_null :: "js_number \<Rightarrow> content_length" where
  "finite_or_null (Finite n) = Length n"
| "finite_or_null Not_finite = Null"
| "finite_or_null Unevaluated = Unevaluated_length"

fun content_length_of_lines :: "string list \<Rightarrow> content_length" where
  "content_length_of_lines [] = Null"
| "content_length_of_lines (line # lines) =
     (case split_colon line of
        k # v # _ \<Rightarrow>
          if k = [] \<or> v = [] then content_length_of_lines lines
          else if map to_lower k = ''content-length'' then finite_or_null (Number_of_value v)
          else content_length_of_lines lines
      | _ \<Rightarrow> content_length_of_lines lines)"

definition parseContentLength :: "string \<Rightarrow> content_length" where
  "parseContentLength header = content_length_of_lines (split_crlf header)"

text \<open>
  \<^verbatim>\<open>JSON.parse\<close> applied to the decoded body (\<open>None\<close> when it throws) and
  \<^verbatim>\<open>JSON.stringify\<close> are the platform's; the framer takes them as parameters.
  \<^verbatim>\<open>JSON.parse\<close> throws on the empty text whatever else it does.
\<close>

definition JSON_parse :: "(string \<Rightarrow> json option) \<Rightarrow> string \<Rightarrow> json option" where
  "JSON_parse parse body = (if body = [] then None else parse body)"

text \<open>
  The text \<^verbatim>\<open>JSON.stringify\<close> returns is a sequence of code points, and
  \<^verbatim>\<open>Buffer.from(json, "utf8")\<close> is its UTF-8 encoding: one to four bytes for each
  code point, the replacement character for a lone surrogate.
\<close>

type_synonym json_text = "nat list"

definition utf8_code_point :: "nat \<Rightarrow> string" where
  "utf8_code_point c =
     (if c < 0x80 then [char_of c]
      else if c < 0x800 then [char_of (0xC0 + c div 64), char_of (0x80 + c mod 64)]
      else if 0xD800 \<le> c \<and> c \<le> 0xDFFF then [CHR 0xEF, CHR 0xBF, CHR 0xBD]
      else if c < 0x10000 then
        [char_of (0xE0 + c div 4096), char_of (0x80 + c div 64 mod 64), char_of (0x80 + c mod 64)]
      else
        [char_of (0xF0 + c div 262144), char_of (0x80 + c div 4096 mod 64),
         char_of (0x80 + c div 64 mod 64), char_of (0x80 + c mod 64)])"

definition utf8 :: "json_text \<Rightarrow> string" where
  "utf8 t = concat (map utf8_code_point t)"

definition encodeMessage :: "(json \<Rightarrow> json_text) \<Rightarrow> json \<Rightarrow> string" where
  "encodeMessage stringify message =
     (let json = stringify message;
          body = utf8 json;
          header = ''Content-Length: '' @ dec_nat (length body) @ CRLF @ CRLF
      in header @ body)"

text \<open>
  Why decoding stops before the stream has ended: the two exceptions of the code, and
  a declared length that the model leaves unevaluated.
\<close>

datatype stop = Missing_content_length | Syntax_error | Unevaluated_header

datatype frame = Need_more | Bad_header | Frame string string | Unevaluated_frame

text \<open>One turn of the inner loop of \<^verbatim>\<open>readMessages\<close>, up to the slicing of the body.\<close>

definition next_frame :: "string \<Rightarrow> frame" where
  "next_frame buffer =
     (case index_of (CRLF @ CRLF) buffer of
        None \<Rightarrow> Need_more
      | Some headerEnd \<Rightarrow>
          (case parseContentLength (take headerEnd buffer) of
             Null \<Rightarrow> Bad_header
           | Unevaluated_length \<Rightarrow> Unevaluated_frame
           | Length contentLength \<Rightarrow>
               let messageStart = int headerEnd + 4;
                   messageEnd = messageStart + contentLength
               in if int (length buffer) < messageEnd then Need_more
                  else Frame (js_slice buffer messageStart messageEnd)
                             (js_slice_from buffer messageEnd)))"

text \<open>
  The inner loop on the current buffer: the messages it yields, the buffer it leaves
  and, when it does not leave by \<^verbatim>\<open>break\<close>, why it stops.
\<close>

function drain :: "(string \<Rightarrow> json option) \<Rightarrow> string \<Rightarrow> json list \<times> string \<times> stop option" where
  "drain parse buffer =
     (case next_frame buffer of
        Need_more \<Rightarrow> ([], buffer, None)
      | Bad_header \<Rightarrow> ([], buffer, Some Missing_content_length)
      | Unevaluated_frame \<Rightarrow> ([], buffer, Some Unevaluated_header)
      | Frame body rest \<Rightarrow>
          (case JSON_parse parse body of
             None \<Rightarrow> ([], rest, Some Syntax_error)
           | Some message \<Rightarrow>
               (case drain parse rest of (ms, b, e) \<Rightarrow> (message # ms, b, e))))"
  by pat_completeness auto
termination
proof (relation "measure (\<lambda>(parse, buffer). length buffer)")
  show "wf (measure (\<lambda>(parse :: string \<Rightarrow> json option, buffer :: string). length buffer))"
    by simp
next
  fix parse :: "string \<Rightarrow> json option" and buffer body rest :: string and message :: json
  assume fr: "next_frame buffer = Frame body rest"
    and ok: "JSON_parse parse body = Some message"
  from ok have ne: "body \<noteq> []"
    by (auto simp: JSON_parse_def split: if_splits)
  from fr obtain h cl where
      body: "body = js_slice buffer (int h + 4) (int h + 4 + cl)"
    and rest: "rest = js_slice_from buffer (int h + 4 + cl)"
    and le: "int h + 4 + cl \<le> int (length buffer)"
    by (auto simp: next_frame_def Let_def split: option.splits content_length.splits if_splits)
  have "length rest < length buffer"
  proof (cases "0 < int h + 4 + cl")
    case True
    then show ?thesis
      using le by (simp add: rest js_slice_from_def clamp_index_def)
  next
    case False
    then show ?thesis
      using ne le
      by (auto simp: body rest js_slice_def js_slice_from_def clamp_index_def Let_def
               split: if_splits)
  qed
  then show "((parse, rest), (parse, buffer)) \<in> measure (\<lambda>(parse, buffer). length buffer)"
    by simp
qed

declare drain.simps [simp del]

text \<open>
  The outer loop over the chunks of the stream. When the stream ends the generator
  returns, whatever is left in the buffer.
\<close>

fun read_chunks ::
  "(string \<Rightarrow> json option) \<Rightarrow> string \<Rightarrow> string list \<Rightarrow> json list \<times> stop option" where
  "read_chunks parse buffer [] = ([], None)"
| "read_chunks parse buffer (chunk # chunks) =
     (case drain parse (buffer @ chunk) of
        (ms, b, Some e) \<Rightarrow> (ms, Some e)
      | (ms, b, None) \<Rightarrow>
          (case read_chunks parse b chunks of (ms', e') \<Rightarrow> (ms @ ms', e')))"

definition readMessages :: "(string \<Rightarrow> json option) \<Rightarrow> string list \<Rightarrow> json list \<times> stop option" where
  "readMessages parse chunks = read_chunks parse [] chunks"

section \<open>Notions used to state the properties\<close>

text \<open>A request (method and identifier both present) whose method reads \<open>initialize\<close>.\<close>

definition is_initialize_request :: "JsonRpcMessage \<Rightarrow> bool" where
  "is_initialize_request msg =
     (case (present (get_prop msg ''method''), present (get_prop msg ''id'')) of
        (Some m, Some i) \<Rightarrow> js_String m = ''initialize''
      | _ \<Rightarrow> False)"

fun to_server_initialize :: "emitted \<Rightarrow> bool" where
  "to_server_initialize (ToServer msg) = is_initialize_request msg"
| "to_server_initialize (ToClient c msg) = False"

definition initialize_requests_sent :: "emitted list \<Rightarrow> nat" where
  "initialize_requests_sent out = length (filter to_server_initialize out)"

fun client_initialize :: "event \<Rightarrow> bool" where
  "client_initialize (FromClient c msg) = is_initialize_request msg"
| "client_initialize _ = False"

text \<open>Every message with a method, whatever its shape.\<close>

definition has_method :: "string \<Rightarrow> JsonRpcMessage \<Rightarrow> bool" where
  "has_method name msg = (get_prop msg ''method'' = Some (JStr name))"

fun to_server_with_method :: "string \<Rightarrow> emitted \<Rightarrow> bool" where
  "to_server_with_method name (ToServer msg) = has_method name msg"
| "to_server_with_method name (ToClient c msg) = False"

text \<open>
  What the spec's two functions must respect for the first statement below: the
  hook leaves the method of the message alone, and a request built for the bridge
  is not an \<open>initialize\<close>.
\<close>

definition spec_respects_initialize :: "ServerSpec \<Rightarrow> bool" where
  "spec_respects_initialize sp =
     ((\<forall>hook. prepareInitialize sp = Some hook \<longrightarrow>
          (\<forall>msg. get_prop (hook msg) ''method'' = get_prop msg ''method''))
      \<and> (\<forall>build. buildRequest sp = Some build \<longrightarrow>
          (\<forall>uri. \<forall>m. present (get_prop (build uri) ''method'') = Some m
                      \<longrightarrow> js_String m \<noteq> ''initialize'')))"

text \<open>A response (no method) whose identifier is the number \<open>n\<close>.\<close>

definition is_response_to :: "int \<Rightarrow> JsonRpcMessage \<Rightarrow> bool" where
  "is_response_to n msg =
     (present (get_prop msg ''method'') = None \<and> get_prop msg ''id'' = Some (JNum n))"

fun server_answers :: "int \<Rightarrow> event \<Rightarrow> bool" where
  "server_answers n (FromServer msg) = is_response_to n msg"
| "server_answers n _ = False"

text \<open>
  The server-facing identifiers at or above the counter are unused, and so are the
  client-facing ones at or below the counter of forwarded requests, which are negative.
\<close>

definition ids_fresh :: "MuxState \<Rightarrow> bool" where
  "ids_fresh st =
     (0 < nextServerRequestId st \<and> nextForwardedServerReqId st < 0
      \<and> (\<forall>k. nextServerRequestId st \<le> k \<longrightarrow>
             pendingClientRequests st k = None \<and> pendingInternalRequests st k = None)
      \<and> (\<forall>k. k \<le> nextForwardedServerReqId st \<or> 0 \<le> k \<longrightarrow>
             pendingServerRequests st k = None))"

text \<open>
  The client-origin and the internal table share the server-facing identifiers and
  never hold the same one; every connected client was numbered before the counter.
\<close>

definition tables_apart :: "MuxState \<Rightarrow> bool" where
  "tables_apart st =
     (\<forall>k. pendingClientRequests st k = None \<or> pendingInternalRequests st k = None)"

definition clients_numbered :: "MuxState \<Rightarrow> bool" where
  "clients_numbered st = (\<forall>c \<in> set (clients st). c < nextClientId st)"


text \<open>An \<open>initialize\<close> request sent by client \<open>c\<close>.\<close>

fun initialize_from :: "nat \<Rightarrow> event \<Rightarrow> bool" where
  "initialize_from c (FromClient c' msg) = (c' = c \<and> is_initialize_request msg)"
| "initialize_from c _ = False"

text \<open>The header block \<open>encodeMessage\<close> writes for a body, without the blank line.\<close>

definition own_header :: "string \<Rightarrow> string" where
  "own_header body = ''Content-Length: '' @ dec_nat (length body)"

section \<open>Scenarios\<close>

text \<open>The messages and event sequences the closed statements below are evaluated on.\<close>

definition initialize_request :: "int \<Rightarrow> JsonRpcMessage" where
  "initialize_request i =
     [(''jsonrpc'', JStr ''2.0''), (''id'', JNum i), (''method'', JStr ''initialize''),
      (''params'', JObj [(''capabilities'', JObj [])])]"

definition initialize_result :: "int \<Rightarrow> JsonRpcMessage" where
  "initialize_result i =
     [(''jsonrpc'', JStr ''2.0''), (''id'', JNum i),
      (''result'', JObj [(''capabilities'', JObj []), (''initCount'', JNum 1)])]"

definition initialize_notification :: JsonRpcMessage where
  "initialize_notification = [(''jsonrpc'', JStr ''2.0''), (''method'', JStr ''initialize'')]"

definition diagnostic_request :: "int \<Rightarrow> JsonRpcMessage" where
  "diagnostic_request i =
     [(''jsonrpc'', JStr ''2.0''), (''id'', JNum i), (''method'', JStr ''textDocument/diagnostic'')]"

definition full_report :: "int \<Rightarrow> JsonRpcMessage" where
  "full_report i =
     [(''jsonrpc'', JStr ''2.0''), (''id'', JNum i),
      (''result'', JObj [(''kind'', JStr ''full''),
                         (''items'', JArr [JObj [(''message'', JStr ''first'')]])])]"

definition second_report :: "int \<Rightarrow> JsonRpcMessage" where
  "second_report i =
     [(''jsonrpc'', JStr ''2.0''), (''id'', JNum i),
      (''result'', JObj [(''kind'', JStr ''full''),
                         (''items'', JArr [JObj [(''message'', JStr ''second'')]])])]"

definition not_initialized_error :: "int \<Rightarrow> JsonRpcMessage" where
  "not_initialized_error i =
     [(''jsonrpc'', JStr ''2.0''), (''id'', JNum i),
      (''error'', JObj [(''code'', JNum (- 32002)),
                        (''message'', JStr ''Server not initialized'')])]"

definition unchanged_report :: "int \<Rightarrow> JsonRpcMessage" where
  "unchanged_report i =
     [(''jsonrpc'', JStr ''2.0''), (''id'', JNum i),
      (''result'', JObj [(''kind'', JStr ''unchanged'')])]"

definition ping_request :: JsonRpcMessage where
  "ping_request =
     [(''jsonrpc'', JStr ''2.0''), (''id'', JNum 5), (''method'', JStr ''custom/ping''),
      (''params'', JObj [(''value'', JNum 123)])]"

definition pong_response :: "int \<Rightarrow> JsonRpcMessage" where
  "pong_response i =
     [(''jsonrpc'', JStr ''2.0''), (''id'', JNum i), (''result'', JObj [(''pong'', JBool True)])]"

definition configuration_request :: JsonRpcMessage where
  "configuration_request =
     [(''jsonrpc'', JStr ''2.0''), (''id'', JNum 7), (''method'', JStr ''workspace/configuration''),
      (''params'', JObj [(''items'', JArr [JObj [], JObj [], JObj []])])]"

definition file_event :: "string \<Rightarrow> JsonRpcMessage" where
  "file_event method =
     [(''jsonrpc'', JStr ''2.0''), (''method'', JStr method),
      (''params'', JObj [(''textDocument'', JObj [(''uri'', JStr ''file:///a.ts'')])])]"



text \<open>
  A client that sends a second request before its \<open>initialize\<close> is answered, a server
  that rejects that request at once and then answers the \<open>initialize\<close>, and a second
  client that initializes afterwards.
\<close>

definition pipelined_initialize_scenario :: "event list" where
  "pipelined_initialize_scenario =
     [Accept, FromClient 1 (initialize_request 1), FromClient 1 (diagnostic_request 5),
      FromServer (not_initialized_error 2), FromServer (initialize_result 1),
      Accept, FromClient 2 (initialize_request 7)]"

text \<open>
  Stand-ins for the platform's JSON functions on the two texts the framing scenarios
  carry: the empty object, written \<^verbatim>\<open>{}\<close>, and the object with the one key
  \<^verbatim>\<open>U+00E9\<close> and the value 1, whose text has seven characters and eight bytes.
\<close>

definition e_acute_text :: json_text where
  "e_acute_text = [123, 34, 233, 34, 58, 49, 125]"

definition e_acute_message :: json where
  "e_acute_message = JObj [([CHR 0xC3, CHR 0xA9], JNum 1)]"

definition stringify_examples :: "json \<Rightarrow> json_text" where
  "stringify_examples v = (if v = e_acute_message then e_acute_text else [123, 125])"

definition parse_examples :: "string \<Rightarrow> json option" where
  "parse_examples s =
     (if s = ''{}'' then Some (JObj [])
      else if s = utf8 e_acute_text then Some e_acute_message
      else None)"

section \<open>Properties of the mux\<close>

subsection \<open>Reading and writing properties\<close>

lemma get_prop_Nil [simp]: "get_prop [] k = None"
  by (simp add: get_prop_def)

lemma get_prop_Cons [simp]:
  "get_prop ((k, v) # m) k' = (if k' = k then Some v else get_prop m k')"
  by (simp add: get_prop_def)

lemma get_prop_set_prop [simp]:
  "get_prop (set_prop k v m) k' = (if k' = k then Some v else get_prop m k')"
  by (induction m) (auto simp: get_prop_def)

subsection \<open>The bridge touches nothing but its own fields and the internal requests\<close>

lemma schedule_bridge_only: "\<exists>b. schedule st uri = st\<lparr>diagnosticsBridge := b\<rparr>"
proof (cases "diagnosticsBridge st")
  case None
  then have "schedule st uri = st\<lparr>diagnosticsBridge := None\<rparr>"
    by (simp add: schedule_def)
  then show ?thesis ..
next
  case (Some b)
  then have "schedule st uri = st\<lparr>diagnosticsBridge := Some b\<rparr>
      \<or> schedule st uri = st\<lparr>diagnosticsBridge := Some (b\<lparr>pendingDiagnosticsAfterInit :=
                  set_add uri (pendingDiagnosticsAfterInit b)\<rparr>)\<rparr>
      \<or> schedule st uri = st\<lparr>diagnosticsBridge := Some (b\<lparr>diagnosticDebounce :=
                  insert uri (diagnosticDebounce b)\<rparr>)\<rparr>"
    by (simp add: schedule_def)
  then show ?thesis by blast
qed

lemma foldl_schedule_bridge_only: "\<exists>b. foldl schedule st uris = st\<lparr>diagnosticsBridge := b\<rparr>"
proof (induction uris arbitrary: st)
  case Nil
  have "foldl schedule st [] = st\<lparr>diagnosticsBridge := diagnosticsBridge st\<rparr>" by simp
  then show ?case ..
next
  case (Cons u us)
  obtain b where b: "schedule st u = st\<lparr>diagnosticsBridge := b\<rparr>"
    using schedule_bridge_only by blast
  obtain b' where "foldl schedule (st\<lparr>diagnosticsBridge := b\<rparr>) us = st\<lparr>diagnosticsBridge := b\<rparr>\<lparr>diagnosticsBridge := b'\<rparr>"
    using Cons.IH by blast
  then have "foldl schedule st (u # us) = st\<lparr>diagnosticsBridge := b'\<rparr>"
    by (simp add: b)
  then show ?case ..
qed

lemma markInitDone_bridge_only: "\<exists>b. markInitDone st = st\<lparr>diagnosticsBridge := b\<rparr>"
proof (cases "diagnosticsBridge st")
  case None
  then have "markInitDone st = st\<lparr>diagnosticsBridge := None\<rparr>"
    by (simp add: markInitDone_def)
  then show ?thesis ..
next
  case (Some b)
  obtain b' where "foldl schedule (st\<lparr>diagnosticsBridge := Some (b\<lparr>initDone := True,
                  pendingDiagnosticsAfterInit := []\<rparr>)\<rparr>) (pendingDiagnosticsAfterInit b)
     = st\<lparr>diagnosticsBridge := Some (b\<lparr>initDone := True,
                  pendingDiagnosticsAfterInit := []\<rparr>)\<rparr>\<lparr>diagnosticsBridge := b'\<rparr>"
    using foldl_schedule_bridge_only by blast
  then have "markInitDone st = st\<lparr>diagnosticsBridge := b'\<rparr>"
    by (simp add: markInitDone_def Some)
  then show ?thesis ..
qed

lemma onDidClose_bridge_only: "\<exists>b. onDidClose st uri = st\<lparr>diagnosticsBridge := b\<rparr>"
  by (cases "diagnosticsBridge st") (auto simp: onDidClose_def intro: exI[of _ None])


lemma onFileEvent_bridge_only: "\<exists>b. onFileEvent st method uri = st\<lparr>diagnosticsBridge := b\<rparr>"
proof (cases "onFileEvent st method uri = schedule st uri")
  case True
  then show ?thesis using schedule_bridge_only by simp
next
  case False
  then have "onFileEvent st method uri = st\<lparr>diagnosticsBridge := diagnosticsBridge st\<rparr>"
    by (simp add: onFileEvent_def split: if_splits)
  then show ?thesis ..
qed

lemma maybeTrigger_bridge_only:
  "\<exists>b. maybeTriggerDiagnosticsBridge st method msg = st\<lparr>diagnosticsBridge := b\<rparr>"
proof (cases "\<exists>uri. maybeTriggerDiagnosticsBridge st method msg = onFileEvent st method uri")
  case True
  then show ?thesis using onFileEvent_bridge_only by auto
next
  case False
  then have "maybeTriggerDiagnosticsBridge st method msg = st\<lparr>diagnosticsBridge := diagnosticsBridge st\<rparr>"
    by (auto simp: maybeTriggerDiagnosticsBridge_def split: if_splits option.splits)
  then show ?thesis ..
qed

lemma bridge_update_fields:
  assumes "\<exists>b. st' = st\<lparr>diagnosticsBridge := b\<rparr>"
  shows "spec st' = spec st" and "nextClientId st' = nextClientId st"
    and "clients st' = clients st" and "primaryClientId st' = primaryClientId st"
    and "nextServerRequestId st' = nextServerRequestId st"
    and "pendingClientRequests st' = pendingClientRequests st"
    and "pendingInternalRequests st' = pendingInternalRequests st"
    and "clientSupportsPullDiagnostics st' = clientSupportsPullDiagnostics st"
    and "nextForwardedServerReqId st' = nextForwardedServerReqId st"
    and "pendingServerRequests st' = pendingServerRequests st"
    and "init st' = init st" and "queuedInitialize st' = queuedInitialize st"
    and "notificationsDecoded st' = notificationsDecoded st"
  using assms by auto

lemmas schedule_fields [simp] = bridge_update_fields [OF schedule_bridge_only]
lemmas markInitDone_fields [simp] = bridge_update_fields [OF markInitDone_bridge_only]
lemmas onDidClose_fields [simp] = bridge_update_fields [OF onDidClose_bridge_only]
lemmas maybeTrigger_fields [simp] = bridge_update_fields [OF maybeTrigger_bridge_only]

lemma nonPull_cong:
  "clientSupportsPullDiagnostics st' = clientSupportsPullDiagnostics st \<Longrightarrow> nonPull st' = nonPull st"
  by (auto simp: nonPull_def fun_eq_iff)

lemma nonPull_bridge_update [simp]: "nonPull (st\<lparr>diagnosticsBridge := b\<rparr>) = nonPull st"
  by (rule nonPull_cong) simp

lemma publish_cong:
  assumes "clientSupportsPullDiagnostics st' = clientSupportsPullDiagnostics st"
    and "clients st' = clients st"
  shows "publishDiagnosticsToNonPullClients st' = publishDiagnosticsToNonPullClients st"
proof -
  have "nonPull st' = nonPull st"
    using assms(1) by (rule nonPull_cong)
  then show ?thesis
    by (intro ext) (simp add: publishDiagnosticsToNonPullClients_def assms(2))
qed

lemma respondWithCachedInit_cong:
  "clients st' = clients st \<Longrightarrow> respondWithCachedInit st' = respondWithCachedInit st"
  by (auto simp: respondWithCachedInit_def fun_eq_iff)

text \<open>What the expiry of a debounce timer can do: nothing, or send one pull request.\<close>

lemma request_cases:
  "request st uri = (st, [])
   \<or> (\<exists>b. request st uri =
         (st\<lparr>diagnosticsBridge := b,
             nextServerRequestId := nextServerRequestId st + 1,
             pendingInternalRequests :=
               (pendingInternalRequests st)(nextServerRequestId st \<mapsto> Bridge_pull_diagnostics uri)\<rparr>,
          [ToServer (set_prop ''id'' (JNum (nextServerRequestId st))
             (case buildRequest (spec st) of
                Some f \<Rightarrow> f (uri_json uri)
              | None \<Rightarrow> default_request (uri_json uri)))]))"
  by (cases "diagnosticsBridge st")
     (auto simp: request_def sendDiagnosticsRequest_def writeToServer_def Let_def)

lemma debounceExpired_cases:
  "(\<exists>b. debounceExpired st uri = (st\<lparr>diagnosticsBridge := b\<rparr>, []))
   \<or> (\<exists>b. debounceExpired st uri =
         (st\<lparr>diagnosticsBridge := b,
             nextServerRequestId := nextServerRequestId st + 1,
             pendingInternalRequests :=
               (pendingInternalRequests st)(nextServerRequestId st \<mapsto> Bridge_pull_diagnostics uri)\<rparr>,
          [ToServer (set_prop ''id'' (JNum (nextServerRequestId st))
             (case buildRequest (spec st) of
                Some f \<Rightarrow> f (uri_json uri)
              | None \<Rightarrow> default_request (uri_json uri)))]))"
proof (cases "diagnosticsBridge st")
  case None
  then have "debounceExpired st uri = (st\<lparr>diagnosticsBridge := None\<rparr>, [])"
    by (simp add: debounceExpired_def)
  then show ?thesis by blast
next
  case (Some b)
  show ?thesis
  proof (cases "uri \<in> diagnosticDebounce b")
    case False
    then have "debounceExpired st uri = (st\<lparr>diagnosticsBridge := Some b\<rparr>, [])"
      by (simp add: debounceExpired_def Some)
    then show ?thesis by blast
  next
    case True
    let ?st = "st\<lparr>diagnosticsBridge := Some (b\<lparr>diagnosticDebounce := diagnosticDebounce b - {uri}\<rparr>)\<rparr>"
    have eq: "debounceExpired st uri = request ?st uri"
      using True by (simp add: debounceExpired_def Some)
    from request_cases [of ?st uri] show ?thesis
      unfolding eq by (elim disjE exE) (rule disjI1, force, rule disjI2, force)
  qed
qed

lemma bridge_onServerResponse_cases:
  "\<exists>b. fst (bridge_onServerResponse st uri msg) = st\<lparr>diagnosticsBridge := b\<rparr>"
  by (cases "diagnosticsBridge st")
     (auto simp: bridge_onServerResponse_def Let_def intro: exI [of _ None])

lemmas bridge_onServerResponse_fields [simp] =
  bridge_update_fields [OF bridge_onServerResponse_cases]

lemma bridge_onServerResponse_out:
  "snd (bridge_onServerResponse st uri msg) =
     (case diagnosticsBridge st of
        None \<Rightarrow> []
      | Some b \<Rightarrow>
          publishDiagnosticsToNonPullClients st (uri_json uri) (pulled_diagnostics b uri msg))"
  by (auto simp: bridge_onServerResponse_def Let_def publishDiagnosticsToNonPullClients_def
                 hasNonPullClients_def nonPull_def list_ex_iff filter_empty_conv
           split: option.splits)

subsection \<open>The initialization state\<close>

lemma debounceExpired_fields [simp]:
  "spec (fst (debounceExpired st uri)) = spec st"
  "nextClientId (fst (debounceExpired st uri)) = nextClientId st"
  "clients (fst (debounceExpired st uri)) = clients st"
  "primaryClientId (fst (debounceExpired st uri)) = primaryClientId st"
  "pendingClientRequests (fst (debounceExpired st uri)) = pendingClientRequests st"
  "clientSupportsPullDiagnostics (fst (debounceExpired st uri)) = clientSupportsPullDiagnostics st"
  "nextForwardedServerReqId (fst (debounceExpired st uri)) = nextForwardedServerReqId st"
  "pendingServerRequests (fst (debounceExpired st uri)) = pendingServerRequests st"
  "init (fst (debounceExpired st uri)) = init st"
  "queuedInitialize (fst (debounceExpired st uri)) = queuedInitialize st"
  using debounceExpired_cases [of st uri] by auto

lemma present_eq_Some: "present x = Some v \<longleftrightarrow> x = Some v \<and> v \<noteq> JNull"
  by (cases x rule: present.cases) auto

lemma present_eq_None: "present x = None \<longleftrightarrow> nullish x"
  by (cases x rule: present.cases) auto

lemmas client_defs =
  onClientMessage_def onClientRequest_def onClientResponse_def onClientNotification_def
  handleInitialize_def recordClientCapabilities_def writeToServer_def

lemmas server_defs =
  onServerMessage_def onServerResponse_def onServerRequest_def onInternalServerResponse_def
  flushQueuedInitialize_def writeToServer_def broadcast_def

lemmas eval_defs =
  addClient_def onClose_def client_defs server_defs new_mux_def oxlintSpec_def
  usesDiagnosticsBridge_def Let_def split_beta initialize_request_def initialize_result_def
  respondWithCachedInit_def prepareInitializeForServer_def initialize_notification_def
  diagnostic_request_def full_report_def unchanged_report_def ping_request_def pong_response_def
  second_report_def not_initialized_error_def
  configuration_request_def file_event_def is_response_to_def

lemmas bridge_eval_defs =
  tsgoSpec_def injectPullDiagnostics_def or_empty_def default_request_def new_bridge_def
  schedule_def markInitDone_def onDidClose_def onFileEvent_def request_def debounceExpired_def
  sendDiagnosticsRequest_def bridge_onServerResponse_def pulled_diagnostics_def
  maybeTriggerDiagnosticsBridge_def document_uri_def set_add_def hasNonPullClients_def
  nonPull_def publishDiagnosticsToNonPullClients_def publishDiagnostics_def

lemma init_after_client_message:
  "init (fst (onClientMessage st c msg)) =
     (if init st = Not_started \<and> is_initialize_request msg then In_progress c else init st)"
  by (auto simp: client_defs is_initialize_request_def Let_def
           split: option.splits InitState.splits json.splits)

lemma init_after_server_message:
  "init (fst (onServerMessage st msg)) = init st
   \<or> (\<exists>p n I. init st = In_progress p \<and> is_response_to n msg
        \<and> pendingInternalRequests st n = None
        \<and> pendingClientRequests st n = Some \<lparr>clientId = p, originalId = I\<rparr>
        \<and> init (fst (onServerMessage st msg)) = Done (get_prop msg ''result'') (get_prop msg ''error''))"
  by (auto simp: server_defs is_response_to_def Let_def split_beta present_eq_Some
           split: option.splits InitState.splits json.splits PendingInternalRequest.splits)
     (metis PendingRequest.surjective old.unit.exhaust)+

lemma Done_stays:
  "init st = Done r e \<Longrightarrow> init (fst (dispatch st ev)) = Done r e"
proof (cases ev)
  case (FromServer msg)
  assume "init st = Done r e"
  then show ?thesis
    using init_after_server_message [of st msg] FromServer by auto
qed (auto simp: addClient_def onClose_def Let_def init_after_client_message)

lemma Done_stays_run:
  "init st = Done r e \<Longrightarrow> init (fst (run st evs)) = Done r e"
proof (induction evs arbitrary: st)
  case Nil
  then show ?case by simp
next
  case (Cons ev evs)
  from Cons.prems have "init (fst (dispatch st ev)) = Done r e" by (rule Done_stays)
  then have "init (fst (run (fst (dispatch st ev)) evs)) = Done r e" by (rule Cons.IH)
  then show ?case by (simp add: split_beta)
qed


lemma respond_bridge_update [simp]:
  "respondWithCachedInit (st\<lparr>pendingClientRequests := pc, init := x\<rparr>) = respondWithCachedInit st"
  by (rule respondWithCachedInit_cong) simp

lemma response_shape:
  "is_response_to n msg \<Longrightarrow>
     present (get_prop msg ''method'') = None \<and> present (get_prop msg ''id'') = Some (JNum n)"
  by (simp add: is_response_to_def)

lemma client_response_step:
  assumes "is_response_to n msg"
    and "pendingInternalRequests st n = None"
    and "pendingClientRequests st n = Some \<lparr>clientId = c, originalId = I\<rparr>"
  shows "snd (onServerMessage st msg) =
           (if init st = In_progress c
            then concat (map (\<lambda>(c', i'). respondWithCachedInit st c' i'
                                (get_prop msg ''result'') (get_prop msg ''error''))
                             (queuedInitialize st))
            else [])
           @ (if c \<in> set (clients st) then [ToClient c (set_prop ''id'' I msg)] else [])"
    and "pendingClientRequests (fst (onServerMessage st msg)) = (pendingClientRequests st)(n := None)"
    and "clients (fst (onServerMessage st msg)) = clients st"
  using response_shape [OF assms(1)] assms(2,3)
  by (simp_all add: onServerMessage_def onServerResponse_def flushQueuedInitialize_def
                    Let_def split_beta)

text \<open>
  Once the state is done it stays done, and an \<open>initialize\<close> request with identifier
  \<open>i\<close> from a connected client is answered at once with one message to that client,
  carrying \<open>i\<close> and the cached \<open>error\<close> if there is one (not null), otherwise the cached
  \<open>result\<close>; nothing is written to the server.
\<close>

lemma done_state_reply:
  assumes "init st = Done r e"
    and "c \<in> set (clients st)"
    and "is_initialize_request msg"
    and "get_prop msg ''id'' = Some i"
  shows "snd (dispatch st (FromClient c msg)) =
            [ToClient c (literal [(''jsonrpc'', Some (JStr ''2.0'')), (''id'', Some i),
                                  (if nullish e then (''result'', r) else (''error'', e))])]"
    and "init (fst (dispatch st (FromClient c msg))) = Done r e"
proof -
  from assms(3,4) have shape:
    "\<exists>m. present (get_prop msg ''method'') = Some m \<and> js_String m = ''initialize''"
    "present (get_prop msg ''id'') = Some i"
    by (auto simp: is_initialize_request_def present_eq_Some split: option.splits)
  show "snd (dispatch st (FromClient c msg)) =
      [ToClient c (literal [(''jsonrpc'', Some (JStr ''2.0'')), (''id'', Some i),
                            (if nullish e then (''result'', r) else (''error'', e))])]"
    using shape assms(1,2)
    by (auto simp: client_defs respondWithCachedInit_def)
  show "init (fst (dispatch st (FromClient c msg))) = Done r e"
    using assms(1) by (simp add: init_after_client_message)
qed

text \<open>
  C2 fails in the code. The payload that is cached is that of the first response to any
  pending request of the initializing client: \<^verbatim>\<open>onServerResponse\<close> compares the
  client of the pending entry with the initializing client and never checks that the
  entry is the one of the \<open>initialize\<close> request. Here client 1 sends a second request
  before its \<open>initialize\<close> is answered and the server rejects it first. Client 1 then
  receives the result of its \<open>initialize\<close>, but the rejection is what was cached, and
  client 2 is answered with it.
\<close>

theorem initialize_cache_holds_other_response:
  "snd (run (new_mux oxlintSpec) pipelined_initialize_scenario) =
     [ToServer (initialize_request 1),
      ToServer (diagnostic_request 2),
      ToClient 1 (not_initialized_error 5),
      ToClient 1 (initialize_result 1),
      ToClient 2 [(''jsonrpc'', JStr ''2.0''), (''id'', JNum 7),
                  (''error'', JObj [(''code'', JNum (- 32002)),
                                    (''message'', JStr ''Server not initialized'')])]]"
  by code_simp

subsection \<open>Identifiers at or beyond the counters are unused\<close>

lemma ids_fresh_new_mux: "ids_fresh (new_mux sp)"
  by (simp add: ids_fresh_def new_mux_def)

lemma ids_fresh_client:
  assumes "ids_fresh st"
  shows "ids_fresh (fst (onClientMessage st c msg))"
  using assms
  by (auto simp: ids_fresh_def client_defs Let_def
           split: option.splits InitState.splits json.splits)

lemma ids_fresh_server:
  assumes "ids_fresh st"
  shows "ids_fresh (fst (onServerMessage st msg))"
  using assms
  by (auto simp: ids_fresh_def server_defs Let_def split_beta
           split: option.splits InitState.splits json.splits PendingInternalRequest.splits)

lemma ids_fresh_timer:
  assumes "ids_fresh st"
  shows "ids_fresh (fst (debounceExpired st uri))"
  using assms debounceExpired_cases [of st uri]
  by (auto simp: ids_fresh_def)

lemma ids_fresh_dispatch: "ids_fresh st \<Longrightarrow> ids_fresh (fst (dispatch st ev))"
  by (cases ev)
     (auto simp: ids_fresh_client ids_fresh_server ids_fresh_timer,
      auto simp: ids_fresh_def addClient_def onClose_def Let_def)

lemma ids_fresh_run: "ids_fresh st \<Longrightarrow> ids_fresh (fst (run st evs))"
proof (induction evs arbitrary: st)
  case Nil
  then show ?case by simp
next
  case (Cons ev evs)
  from Cons.prems have "ids_fresh (fst (dispatch st ev))" by (rule ids_fresh_dispatch)
  then have "ids_fresh (fst (run (fst (dispatch st ev)) evs))" by (rule Cons.IH)
  then show ?case by (simp add: split_beta)
qed

lemma ids_fresh_reachable: "ids_fresh (fst (run (new_mux sp) evs))"
  by (rule ids_fresh_run) (rule ids_fresh_new_mux)

lemma tables_apart_dispatch:
  assumes "ids_fresh st" and "tables_apart st"
  shows "tables_apart (fst (dispatch st ev))"
proof (cases ev)
  case Accept
  then show ?thesis using assms(2) by (simp add: tables_apart_def addClient_def Let_def)
next
  case (Close c)
  then show ?thesis using assms(2) by (simp add: tables_apart_def onClose_def Let_def)
next
  case (FromClient c msg)
  then show ?thesis using assms
    by (auto simp: tables_apart_def ids_fresh_def client_defs Let_def
             split: option.splits InitState.splits json.splits)
next
  case (FromServer msg)
  then show ?thesis using assms(2)
    by (auto simp: tables_apart_def server_defs Let_def split_beta
             split: option.splits InitState.splits json.splits PendingInternalRequest.splits)
next
  case (DebounceExpired uri)
  then show ?thesis using assms debounceExpired_cases [of st uri]
    by (auto simp: tables_apart_def ids_fresh_def split: if_splits)
qed

lemma clients_numbered_dispatch:
  assumes "clients_numbered st"
  shows "clients_numbered (fst (dispatch st ev))"
proof (cases ev)
  case Accept
  then show ?thesis using assms by (auto simp: clients_numbered_def addClient_def Let_def)
next
  case (Close c)
  then show ?thesis using assms by (auto simp: clients_numbered_def onClose_def Let_def)
next
  case (FromClient c msg)
  then show ?thesis using assms
    by (auto simp: clients_numbered_def client_defs Let_def
             split: option.splits InitState.splits json.splits)
next
  case (FromServer msg)
  then show ?thesis using assms
    by (auto simp: clients_numbered_def server_defs Let_def split_beta
             split: option.splits InitState.splits json.splits PendingInternalRequest.splits)
next
  case (DebounceExpired uri)
  then show ?thesis using assms by (simp add: clients_numbered_def)
qed

lemma numbering_run:
  assumes "ids_fresh st" and "tables_apart st" and "clients_numbered st"
  shows "tables_apart (fst (run st evs)) \<and> clients_numbered (fst (run st evs))"
  using assms
proof (induction evs arbitrary: st)
  case Nil
  then show ?case by simp
next
  case (Cons ev evs)
  have "ids_fresh (fst (dispatch st ev))"
    using Cons.prems(1) by (rule ids_fresh_dispatch)
  moreover have "tables_apart (fst (dispatch st ev))"
    using Cons.prems(1,2) by (rule tables_apart_dispatch)
  moreover have "clients_numbered (fst (dispatch st ev))"
    using Cons.prems(3) by (rule clients_numbered_dispatch)
  ultimately have "tables_apart (fst (run (fst (dispatch st ev)) evs))
      \<and> clients_numbered (fst (run (fst (dispatch st ev)) evs))"
    by (rule Cons.IH)
  then show ?case by (simp add: split_beta)
qed

lemma numbering_reachable:
  "tables_apart (fst (run (new_mux sp) evs))"
  "clients_numbered (fst (run (new_mux sp) evs))"
proof -
  have "ids_fresh (new_mux sp)" by (rule ids_fresh_new_mux)
  moreover have "tables_apart (new_mux sp)" by (simp add: tables_apart_def new_mux_def)
  moreover have "clients_numbered (new_mux sp)" by (simp add: clients_numbered_def new_mux_def)
  ultimately have "tables_apart (fst (run (new_mux sp) evs))
      \<and> clients_numbered (fst (run (new_mux sp) evs))"
    by (rule numbering_run)
  then show "tables_apart (fst (run (new_mux sp) evs))"
    and "clients_numbered (fst (run (new_mux sp) evs))"
    by simp_all
qed

subsection \<open>A forwarded request and its response\<close>






subsection \<open>Counting the \<open>initialize\<close> requests written to the server\<close>

lemma sent_to_client [simp]: "initialize_requests_sent [ToClient c msg] = 0"
  by (simp add: initialize_requests_sent_def)

lemma sent_Nil [simp]: "initialize_requests_sent [] = 0"
  by (simp add: initialize_requests_sent_def)

lemma sent_append [simp]:
  "initialize_requests_sent (xs @ ys) = initialize_requests_sent xs + initialize_requests_sent ys"
  by (simp add: initialize_requests_sent_def)

lemma sent_to_clients [simp]:
  "initialize_requests_sent (map (\<lambda>c. ToClient c (f c)) cs) = 0"
  by (induction cs) (simp_all add: initialize_requests_sent_def)

lemma sent_cached [simp]: "initialize_requests_sent (respondWithCachedInit st c i r e) = 0"
  by (simp add: respondWithCachedInit_def initialize_requests_sent_def)

lemma sent_flush [simp]:
  "initialize_requests_sent (concat (map (\<lambda>(c, i). respondWithCachedInit st c i r e) q)) = 0"
  by (induction q) (auto simp: split_beta)

lemma sent_publish [simp]:
  "initialize_requests_sent (publishDiagnosticsToNonPullClients st uri ds) = 0"
  by (simp add: publishDiagnosticsToNonPullClients_def)

lemma sent_bridge_response [simp]:
  "initialize_requests_sent (snd (bridge_onServerResponse st uri msg)) = 0"
  by (simp add: bridge_onServerResponse_out split: option.splits)

lemma sent_single:
  "initialize_requests_sent [ToServer msg] = (if is_initialize_request msg then 1 else 0)"
  by (simp add: initialize_requests_sent_def)

lemma sent_by_client:
  assumes "spec_respects_initialize (spec st)"
  shows "initialize_requests_sent (snd (onClientMessage st c msg)) =
           (if init st = Not_started \<and> is_initialize_request msg then 1 else 0)"
proof (cases "is_initialize_request msg")
  case True
  then obtain m i where shape: "present (get_prop msg ''method'') = Some m"
      "js_String m = ''initialize''" "present (get_prop msg ''id'') = Some i"
    by (auto simp: is_initialize_request_def split: option.splits)
  have hook: "prepareInitialize (spec st) = Some h \<Longrightarrow>
      get_prop (h msg) ''method'' = get_prop msg ''method''" for h
    using assms by (simp add: spec_respects_initialize_def)
  show ?thesis
    using True shape
    by (auto simp: onClientMessage_def onClientRequest_def handleInitialize_def
                   recordClientCapabilities_def writeToServer_def Let_def sent_single
                   is_initialize_request_def prepareInitializeForServer_def hook
             split: InitState.splits option.splits)
next
  case False
  then show ?thesis
    by (auto simp: client_defs Let_def sent_single is_initialize_request_def
             split: option.splits json.splits)
qed

lemma sent_by_server: "initialize_requests_sent (snd (onServerMessage st msg)) = 0"
  by (auto simp: server_defs Let_def split_beta sent_single is_initialize_request_def
           split: option.splits json.splits PendingInternalRequest.splits)

lemma sent_by_timer:
  assumes "spec_respects_initialize (spec st)"
  shows "initialize_requests_sent (snd (debounceExpired st uri)) = 0"
proof -
  have "\<not> is_initialize_request (set_prop ''id'' (JNum n)
           (case buildRequest (spec st) of
              Some f \<Rightarrow> f (uri_json uri)
            | None \<Rightarrow> default_request (uri_json uri)))" for n
    using assms
    by (auto simp: spec_respects_initialize_def is_initialize_request_def default_request_def
             split: option.splits)
  then show ?thesis
    using debounceExpired_cases [of st uri] by (auto simp: sent_single)
qed

lemma sent_by_dispatch:
  assumes "spec_respects_initialize (spec st)"
  shows "initialize_requests_sent (snd (dispatch st ev)) =
           (if init st = Not_started \<and> client_initialize ev then 1 else 0)"
  using assms by (cases ev) (simp_all add: sent_by_client sent_by_server sent_by_timer)

lemma spec_dispatch [simp]: "spec (fst (dispatch st ev)) = spec st"
  by (cases ev)
     (auto simp: addClient_def onClose_def client_defs server_defs Let_def split_beta
           split: option.splits InitState.splits json.splits PendingInternalRequest.splits)

lemma init_after_dispatch:
  "init (fst (dispatch st ev)) = Not_started \<longleftrightarrow> init st = Not_started \<and> \<not> client_initialize ev"
proof (cases ev)
  case (FromServer msg)
  then show ?thesis using init_after_server_message [of st msg] by auto
qed (auto simp: addClient_def onClose_def Let_def init_after_client_message)

lemma sent_by_run:
  assumes "spec_respects_initialize (spec st)"
  shows "initialize_requests_sent (snd (run st evs)) =
           (if init st = Not_started \<and> list_ex client_initialize evs then 1 else 0)"
  using assms
proof (induction evs arbitrary: st)
  case Nil
  then show ?case by simp
next
  case (Cons ev evs)
  let ?st = "fst (dispatch st ev)"
  have "spec_respects_initialize (spec ?st)"
    using Cons.prems by simp
  from Cons.IH [OF this] sent_by_dispatch [OF Cons.prems, of ev] init_after_dispatch [of st ev]
  show ?case
    by (auto simp: split_beta)
qed

text \<open>
  C1, as amended. Over any run of the mux from its initial state, the number of
  \<open>initialize\<close> requests written to the server is one if some client has sent an
  \<open>initialize\<close> request and zero otherwise: the first one (state not-started) is
  forwarded, and an \<open>initialize\<close> request that arrives while the state is in-progress
  or done writes nothing to the server. The spec's hook must leave the method alone and
  the bridge's request builder must not build an \<open>initialize\<close>.
\<close>

theorem initialize_request_once:
  assumes "spec_respects_initialize sp"
  shows "initialize_requests_sent (snd (run (new_mux sp) evs)) =
           (if list_ex client_initialize evs then 1 else 0)
       \<and> (\<forall>st c msg m. init st \<noteq> Not_started \<and> is_initialize_request msg
             \<longrightarrow> ToServer m \<notin> set (snd (dispatch st (FromClient c msg))))"
proof -
  have "spec_respects_initialize (spec (new_mux sp))" and "init (new_mux sp) = Not_started"
    using assms by (simp_all add: new_mux_def)
  from sent_by_run [OF this(1), of evs] this(2)
  have count: "initialize_requests_sent (snd (run (new_mux sp) evs)) =
           (if list_ex client_initialize evs then 1 else 0)"
    by simp
  have quiet: "ToServer m \<notin> set (snd (dispatch st (FromClient c msg)))"
    if "init st \<noteq> Not_started" "is_initialize_request msg" for st c msg m
    using that
    by (auto simp: is_initialize_request_def client_defs respondWithCachedInit_def Let_def
             split: option.splits InitState.splits)
  from count quiet show ?thesis by blast
qed

text \<open>
  C1 as stated fails: a notification with method \<open>initialize\<close> is forwarded like any
  other notification, here twice.
\<close>

theorem initialize_forwarded_twice:
  "length (filter (to_server_with_method ''initialize'')
     (snd (run (new_mux oxlintSpec)
        [Accept, FromClient 1 initialize_notification, FromClient 1 initialize_notification]))) = 2"
  by (simp add: eval_defs has_method_def)

lemma tsgo_respects_initialize: "spec_respects_initialize tsgoSpec"
  by (simp add: spec_respects_initialize_def tsgoSpec_def injectPullDiagnostics_def Let_def
                default_request_def)

text \<open>
  The amended C1 on the bundled TypeScript spec, with three clients initializing.
\<close>

theorem initialize_request_once_witness:
  "spec_respects_initialize tsgoSpec
   \<and> initialize_requests_sent (snd (run (new_mux tsgoSpec)
        [Accept, FromClient 1 (initialize_request 1), Accept, FromClient 2 (initialize_request 2),
         FromServer (initialize_result 1), Accept, FromClient 3 (initialize_request 3)])) = 1"
proof -
  have h: "spec_respects_initialize tsgoSpec"
    by (rule tsgo_respects_initialize)
  from initialize_request_once [OF h,
    of "[Accept, FromClient 1 (initialize_request 1), Accept, FromClient 2 (initialize_request 2),
         FromServer (initialize_result 1), Accept, FromClient 3 (initialize_request 3)]"]
  show ?thesis
    using h by (simp add: is_initialize_request_def initialize_request_def)
qed

subsection \<open>Server requests answered locally, and client responses\<close>

text \<open>
  C7. A server request with method \<open>client/registerCapability\<close> or
  \<open>client/unregisterCapability\<close> is answered to the server with \<open>result: null\<close> under the
  server's identifier; \<open>workspace/configuration\<close> is answered with as many \<open>null\<close>s as
  \<open>params.items\<close> has elements, none if it is missing or not an array. The state is
  unchanged and no client is written to.
\<close>

theorem server_requests_answered_locally:
  assumes "get_prop msg ''method'' = Some (JStr method)"
    and "get_prop msg ''id'' = Some i" and "i \<noteq> JNull"
  shows "(method = ''client/registerCapability'' \<or> method = ''client/unregisterCapability'' \<longrightarrow>
            dispatch st (FromServer msg) =
              (st, [ToServer [(''jsonrpc'', JStr ''2.0''), (''id'', i), (''result'', JNull)]]))
       \<and> (method = ''workspace/configuration'' \<longrightarrow>
            dispatch st (FromServer msg) =
              (st, [ToServer [(''jsonrpc'', JStr ''2.0''), (''id'', i),
                     (''result'', JArr (replicate
                        (case as_array (field (get_prop msg ''params'') ''items'') of
                           Some xs \<Rightarrow> length xs | None \<Rightarrow> 0) JNull))]]))"
proof -
  have shape: "present (get_prop msg ''id'') = Some i"
    using assms(2,3) by (simp add: present_eq_Some)
  show ?thesis
    using assms(1) shape
    by (auto simp: onServerMessage_def onServerRequest_def writeToServer_def
                   map_replicate_const split: option.splits)
qed

text \<open>
  C7 on scenario S5.
\<close>

theorem server_requests_answered_locally_witness:
  "get_prop configuration_request ''method'' = Some (JStr ''workspace/configuration'')
   \<and> get_prop configuration_request ''id'' = Some (JNum 7)
   \<and> dispatch (new_mux oxlintSpec) (FromServer configuration_request)
       = (new_mux oxlintSpec,
          [ToServer [(''jsonrpc'', JStr ''2.0''), (''id'', JNum 7),
                      (''result'', JArr [JNull, JNull, JNull])]])"
proof -
  have h1: "get_prop configuration_request ''method'' = Some (JStr ''workspace/configuration'')"
    and h2: "get_prop configuration_request ''id'' = Some (JNum 7)"
    and h3: "JNum 7 \<noteq> JNull"
    by (simp_all add: configuration_request_def)
  from server_requests_answered_locally [OF h1 h2 h3, of "new_mux oxlintSpec"] h1 h2
  show ?thesis
    by (simp add: configuration_request_def numeral_3_eq_3)
qed

text \<open>
  C4, as amended. A client response whose identifier is a number registered in the
  table of forwarded server requests is rewritten to the server's identifier and
  forwarded to the server, and its entry is consumed; every other client response
  (identifier not a number, or a number that is not registered) is forwarded to the
  server unchanged. No client is written to. In a reachable state every registered
  identifier is negative.
\<close>

theorem client_response_routing:
  assumes "present (get_prop msg ''method'') = None"
    and "present (get_prop msg ''id'') = Some i"
  shows "(\<forall>n serverId. i = JNum n \<and> pendingServerRequests st n = Some serverId \<longrightarrow>
            dispatch st (FromClient c msg) =
              (st\<lparr>pendingServerRequests := (pendingServerRequests st)(n := None)\<rparr>,
               [ToServer (set_prop ''id'' serverId msg)]))
       \<and> ((\<forall>n. i = JNum n \<longrightarrow> pendingServerRequests st n = None) \<longrightarrow>
            dispatch st (FromClient c msg) = (st, [ToServer msg]))
       \<and> (\<forall>sp evs n serverId. st = fst (run (new_mux sp) evs)
              \<and> pendingServerRequests st n = Some serverId \<longrightarrow> n < 0)"
proof -
  have registered: "dispatch st (FromClient c msg) =
              (st\<lparr>pendingServerRequests := (pendingServerRequests st)(n := None)\<rparr>,
               [ToServer (set_prop ''id'' serverId msg)])"
    if "i = JNum n" "pendingServerRequests st n = Some serverId" for n serverId
    using assms that by (simp add: onClientMessage_def onClientResponse_def writeToServer_def)
  have stray: "dispatch st (FromClient c msg) = (st, [ToServer msg])"
    if "\<forall>n. i = JNum n \<longrightarrow> pendingServerRequests st n = None"
    using assms that
    by (cases i) (simp_all add: onClientMessage_def onClientResponse_def writeToServer_def)
  have negative: "n < 0"
    if "st = fst (run (new_mux sp) evs)" "pendingServerRequests st n = Some serverId"
    for sp evs n serverId
  proof (rule ccontr)
    assume "\<not> n < 0"
    moreover have "ids_fresh st"
      unfolding that(1) by (rule ids_fresh_reachable)
    ultimately have "pendingServerRequests st n = None"
      by (simp add: ids_fresh_def)
    with that(2) show False by simp
  qed
  from registered stray negative show ?thesis by blast
qed

text \<open>
  C4 as stated fails: a client response that matches no forwarded request is written to
  the server.
\<close>

theorem stray_client_response_forwarded:
  "snd (dispatch (fst (run (new_mux oxlintSpec) [Accept])) (FromClient 1 (pong_response 5)))
     = [ToServer (pong_response 5)]"
  by (simp add: eval_defs)

text \<open>
  The amended C4 on scenario S4: the reply to a forwarded request returns under the server's identifier.
\<close>

theorem client_response_routing_witness:
  "present (get_prop (pong_response (- 1)) ''method'') = None
   \<and> present (get_prop (pong_response (- 1)) ''id'') = Some (JNum (- 1))
   \<and> pendingServerRequests (fst (run (new_mux oxlintSpec) [Accept, FromServer ping_request])) (- 1)
       = Some (JNum 5)
   \<and> snd (dispatch (fst (run (new_mux oxlintSpec) [Accept, FromServer ping_request]))
            (FromClient 1 (pong_response (- 1))))
       = [ToServer (pong_response 5)]"
proof -
  let ?st = "fst (run (new_mux oxlintSpec) [Accept, FromServer ping_request])"
  have h1: "present (get_prop (pong_response (- 1)) ''method'') = None"
    and h2: "present (get_prop (pong_response (- 1)) ''id'') = Some (JNum (- 1))"
    by (simp_all add: pong_response_def)
  have reg: "pendingServerRequests ?st (- 1) = Some (JNum 5)"
    by (simp add: eval_defs)
  from client_response_routing [OF h1 h2, of ?st 1] reg
  have "dispatch ?st (FromClient 1 (pong_response (- 1))) =
          (?st\<lparr>pendingServerRequests := (pendingServerRequests ?st)(- 1 := None)\<rparr>,
           [ToServer (set_prop ''id'' (JNum 5) (pong_response (- 1)))])"
    by blast
  then have "snd (dispatch ?st (FromClient 1 (pong_response (- 1)))) = [ToServer (pong_response 5)]"
    by (simp add: pong_response_def)
  with h1 h2 reg show ?thesis by simp
qed

subsection \<open>Entries of a departed client\<close>

lemma onClose_facts:
  "pendingClientRequests (onClose st c) = pendingClientRequests st"
  "pendingInternalRequests (onClose st c) = pendingInternalRequests st"
  "pendingServerRequests (onClose st c) = pendingServerRequests st"
  "c \<notin> set (clients (onClose st c))"
  "clientSupportsPullDiagnostics (onClose st c) c = None"
  "primaryClientId (onClose st c) \<noteq> Some c"
proof -
  have "k \<noteq> c" if "removeAll c (clients st) = k # ks" for k ks
  proof -
    from that have "k \<in> set (removeAll c (clients st))" by simp
    then show ?thesis by simp
  qed
  then show "primaryClientId (onClose st c) \<noteq> Some c"
    by (auto simp: onClose_def Let_def split: list.splits)
qed (simp_all add: onClose_def Let_def)

lemma flush_not_to_departed:
  "c \<notin> set (clients st) \<Longrightarrow>
     ToClient c m \<notin> set (concat (map (\<lambda>(c', i'). respondWithCachedInit st c' i' r e) q))"
  by (induction q) (auto simp: respondWithCachedInit_def)

text \<open>
  The entry of a departed client stays where it is, and the client stays away, over
  every event that is not the server's answer to the entry's identifier.
\<close>

lemma departed_dispatch:
  assumes "pendingClientRequests st n = Some pend"
    and "pendingInternalRequests st n = None"
    and "n < nextServerRequestId st"
    and "c \<notin> set (clients st)" and "c < nextClientId st"
    and "\<not> server_answers n e"
  shows "pendingClientRequests (fst (dispatch st e)) n = Some pend
       \<and> pendingInternalRequests (fst (dispatch st e)) n = None
       \<and> n < nextServerRequestId (fst (dispatch st e))
       \<and> c \<notin> set (clients (fst (dispatch st e)))
       \<and> c < nextClientId (fst (dispatch st e))"
proof (cases e)
  case Accept
  then show ?thesis using assms by (simp add: addClient_def Let_def)
next
  case (Close c')
  then show ?thesis using assms by (simp add: onClose_def Let_def)
next
  case (FromClient c' msg)
  then show ?thesis using assms(1-5)
    by (auto simp: client_defs Let_def split: option.splits InitState.splits json.splits)
next
  case (FromServer msg)
  with assms(6) have "\<not> is_response_to n msg" by simp
  then show ?thesis using assms(1-5) FromServer
    by (auto simp: server_defs is_response_to_def Let_def split_beta present_eq_Some
             split: option.splits InitState.splits json.splits PendingInternalRequest.splits)
next
  case (DebounceExpired uri)
  then show ?thesis using assms(1-5) debounceExpired_cases [of st uri]
    by auto
qed

lemma departed_run:
  assumes "pendingClientRequests st n = Some pend"
    and "pendingInternalRequests st n = None"
    and "n < nextServerRequestId st"
    and "c \<notin> set (clients st)" and "c < nextClientId st"
    and "\<forall>e \<in> set evs. \<not> server_answers n e"
  shows "pendingClientRequests (fst (run st evs)) n = Some pend
       \<and> pendingInternalRequests (fst (run st evs)) n = None
       \<and> c \<notin> set (clients (fst (run st evs)))"
  using assms
proof (induction evs arbitrary: st)
  case Nil
  then show ?case by simp
next
  case (Cons e evs)
  from Cons.prems(6) have e: "\<not> server_answers n e"
    and rest: "\<forall>e \<in> set evs. \<not> server_answers n e"
    by simp_all
  note step = departed_dispatch [OF Cons.prems(1-5) e]
  from step have "pendingClientRequests (fst (run (fst (dispatch st e)) evs)) n = Some pend
       \<and> pendingInternalRequests (fst (run (fst (dispatch st e)) evs)) n = None
       \<and> c \<notin> set (clients (fst (run (fst (dispatch st e)) evs)))"
    using rest by (intro Cons.IH) simp_all
  then show ?case by (simp add: split_beta)
qed

text \<open>
  C8, as amended. Closing a connection removes the client from the client set, the
  capability map and the primary role, and leaves the three pending-request tables as
  they are. Let a connected client \<open>c\<close> of a reachable state have an entry in the
  client-origin table under the identifier \<open>n\<close>, and let it disconnect. Whatever happens
  next, as long as the server does not answer \<open>n\<close>, the client stays away and the entry
  stays in the table. The server's response to \<open>n\<close> consumes the entry and is written to
  no client: the step writes nothing at all, unless \<open>c\<close> was the client whose
  \<open>initialize\<close> was in progress, in which case it writes the cached replies to the queued
  \<open>initialize\<close> requests and nothing else. Nothing is written to \<open>c\<close>.
\<close>

theorem departed_client_entries:
  assumes "st = fst (run (new_mux sp) evs0)"
    and "c \<in> set (clients st)"
    and "pendingClientRequests st n = Some \<lparr>clientId = c, originalId = I\<rparr>"
    and "\<forall>e \<in> set evs. \<not> server_answers n e"
    and "run (fst (dispatch st (Close c))) evs = (st', out)"
    and "is_response_to n resp"
  shows "(\<forall>s k. pendingClientRequests (fst (dispatch s (Close k))) = pendingClientRequests s
            \<and> pendingInternalRequests (fst (dispatch s (Close k))) = pendingInternalRequests s
            \<and> pendingServerRequests (fst (dispatch s (Close k))) = pendingServerRequests s
            \<and> k \<notin> set (clients (fst (dispatch s (Close k))))
            \<and> clientSupportsPullDiagnostics (fst (dispatch s (Close k))) k = None
            \<and> primaryClientId (fst (dispatch s (Close k))) \<noteq> Some k)
       \<and> c \<notin> set (clients st')
       \<and> pendingClientRequests st' n = Some \<lparr>clientId = c, originalId = I\<rparr>
       \<and> pendingClientRequests (fst (dispatch st' (FromServer resp))) n = None
       \<and> snd (dispatch st' (FromServer resp)) =
           (if init st' = In_progress c
            then concat (map (\<lambda>(c', i'). respondWithCachedInit st' c' i'
                                (get_prop resp ''result'') (get_prop resp ''error''))
                             (queuedInitialize st'))
            else [])
       \<and> (\<forall>m. ToClient c m \<notin> set (snd (dispatch st' (FromServer resp))))"
proof -
  let ?closed = "fst (dispatch st (Close c))"
  have closing: "pendingClientRequests (fst (dispatch s (Close k))) = pendingClientRequests s
            \<and> pendingInternalRequests (fst (dispatch s (Close k))) = pendingInternalRequests s
            \<and> pendingServerRequests (fst (dispatch s (Close k))) = pendingServerRequests s
            \<and> k \<notin> set (clients (fst (dispatch s (Close k))))
            \<and> clientSupportsPullDiagnostics (fst (dispatch s (Close k))) k = None
            \<and> primaryClientId (fst (dispatch s (Close k))) \<noteq> Some k" for s k
    by (simp add: onClose_facts)
  have fresh: "ids_fresh st" and apart: "tables_apart st" and numbered: "clients_numbered st"
    unfolding assms(1) by (rule ids_fresh_reachable, rule numbering_reachable, rule numbering_reachable)
  have below: "n < nextServerRequestId st"
  proof (rule ccontr)
    assume "\<not> n < nextServerRequestId st"
    with fresh have "pendingClientRequests st n = None"
      by (simp add: ids_fresh_def)
    with assms(3) show False by simp
  qed
  have "pendingClientRequests st n = None \<or> pendingInternalRequests st n = None"
    using apart by (simp add: tables_apart_def)
  then have internal: "pendingInternalRequests st n = None"
    using assms(3) by simp
  have old: "c < nextClientId st"
    using numbered assms(2) by (simp add: clients_numbered_def)
  have "pendingClientRequests ?closed n = Some \<lparr>clientId = c, originalId = I\<rparr>"
    and "pendingInternalRequests ?closed n = None"
    and "n < nextServerRequestId ?closed"
    and "c \<notin> set (clients ?closed)" and "c < nextClientId ?closed"
    using assms(3) internal below old by (simp_all add: onClose_def Let_def)
  from departed_run [OF this assms(4)] assms(5)
  have pend: "pendingClientRequests st' n = Some \<lparr>clientId = c, originalId = I\<rparr>"
    and internal': "pendingInternalRequests st' n = None"
    and away: "c \<notin> set (clients st')"
    by simp_all
  note step = client_response_step [OF assms(6) internal' pend]
  have consumed: "pendingClientRequests (fst (dispatch st' (FromServer resp))) n = None"
    using step(2) by simp
  have written: "snd (dispatch st' (FromServer resp)) =
           (if init st' = In_progress c
            then concat (map (\<lambda>(c', i'). respondWithCachedInit st' c' i'
                                (get_prop resp ''result'') (get_prop resp ''error''))
                             (queuedInitialize st'))
            else [])"
    using step(1) away by simp
  have "ToClient c m \<notin> set (snd (dispatch st' (FromServer resp)))" for m
    unfolding written using flush_not_to_departed [OF away] by simp
  with closing away pend consumed written show ?thesis by blast
qed

text \<open>
  C8 as stated fails: after the only client has closed, its entries are still in the
  client-origin table and in the table of forwarded server requests.
\<close>

theorem departed_client_keeps_entries:
  "1 \<notin> set (clients (fst (run (new_mux oxlintSpec)
             [Accept, FromClient 1 (diagnostic_request 42), Close 1])))
   \<and> pendingClientRequests (fst (run (new_mux oxlintSpec)
             [Accept, FromClient 1 (diagnostic_request 42), Close 1])) 1
       = Some \<lparr>clientId = 1, originalId = JNum 42\<rparr>
   \<and> 1 \<notin> set (clients (fst (run (new_mux oxlintSpec) [Accept, FromServer ping_request, Close 1])))
   \<and> pendingServerRequests (fst (run (new_mux oxlintSpec)
             [Accept, FromServer ping_request, Close 1])) (- 1)
       = Some (JNum 5)"
  by (simp add: eval_defs)

text \<open>
  The amended C8 on two runs. A client leaves with a request pending; another client
  connects and sends a request; the late response is written to nobody. And the client
  whose \<open>initialize\<close> is in progress leaves; the late response answers the queued
  \<open>initialize\<close> of the other client and is written to nobody else.
\<close>

theorem departed_client_entries_witness:
  "1 \<in> set (clients (fst (run (new_mux oxlintSpec) [Accept, FromClient 1 (diagnostic_request 42)])))
   \<and> pendingClientRequests (fst (run (new_mux oxlintSpec)
         [Accept, FromClient 1 (diagnostic_request 42)])) 1
       = Some \<lparr>clientId = 1, originalId = JNum 42\<rparr>
   \<and> \<not> server_answers 1 Accept
   \<and> \<not> server_answers 1 (FromClient 2 (diagnostic_request 42))
   \<and> is_response_to 1 (full_report 1)
   \<and> pendingClientRequests
        (fst (run (new_mux oxlintSpec)
           [Accept, FromClient 1 (diagnostic_request 42), Close 1, Accept,
            FromClient 2 (diagnostic_request 42)])) 1
       = Some \<lparr>clientId = 1, originalId = JNum 42\<rparr>
   \<and> snd (dispatch
        (fst (run (new_mux oxlintSpec)
           [Accept, FromClient 1 (diagnostic_request 42), Close 1, Accept,
            FromClient 2 (diagnostic_request 42)]))
        (FromServer (full_report 1))) = []
   \<and> snd (dispatch
        (fst (run (new_mux oxlintSpec)
           [Accept, FromClient 1 (initialize_request 1), Accept,
            FromClient 2 (initialize_request 2), Close 1]))
        (FromServer (initialize_result 1)))
       = [ToClient 2 [(''jsonrpc'', JStr ''2.0''), (''id'', JNum 2),
            (''result'', JObj [(''capabilities'', JObj []), (''initCount'', JNum 1)])]]"
proof -
  let ?st = "fst (run (new_mux oxlintSpec) [Accept, FromClient 1 (diagnostic_request 42)])"
  let ?evs = "[Accept, FromClient 2 (diagnostic_request 42)]"
  let ?st' = "fst (run (fst (dispatch ?st (Close 1))) ?evs)"
  let ?init = "fst (run (new_mux oxlintSpec)
           [Accept, FromClient 1 (initialize_request 1), Accept, FromClient 2 (initialize_request 2)])"
  let ?init' = "fst (run (fst (dispatch ?init (Close 1))) [])"
  have h1: "?st = fst (run (new_mux oxlintSpec) [Accept, FromClient 1 (diagnostic_request 42)])"
    by simp
  have h2: "1 \<in> set (clients ?st)"
    and h3: "pendingClientRequests ?st 1 = Some \<lparr>clientId = 1, originalId = JNum 42\<rparr>"
    by (simp_all add: eval_defs)
  have h4: "\<forall>e \<in> set ?evs. \<not> server_answers 1 e"
    by simp
  have h5: "run (fst (dispatch ?st (Close 1))) ?evs = (?st', snd (run (fst (dispatch ?st (Close 1))) ?evs))"
    by simp
  have h6: "is_response_to 1 (full_report 1)"
    by (simp add: is_response_to_def full_report_def)
  have quiet: "init ?st' \<noteq> In_progress 1"
    by (simp add: eval_defs)
  have same: "?st' = fst (run (new_mux oxlintSpec)
           [Accept, FromClient 1 (diagnostic_request 42), Close 1, Accept,
            FromClient 2 (diagnostic_request 42)])"
    by (simp add: split_beta)
  from departed_client_entries [OF h1 h2 h3 h4 h5 h6] quiet
  have first: "pendingClientRequests ?st' 1 = Some \<lparr>clientId = 1, originalId = JNum 42\<rparr>
      \<and> snd (dispatch ?st' (FromServer (full_report 1))) = []"
    by simp
  have i1: "?init = fst (run (new_mux oxlintSpec)
           [Accept, FromClient 1 (initialize_request 1), Accept, FromClient 2 (initialize_request 2)])"
    by simp
  have i2: "1 \<in> set (clients ?init)"
    and i3: "pendingClientRequests ?init 1 = Some \<lparr>clientId = 1, originalId = JNum 1\<rparr>"
    by (simp_all add: eval_defs)
  have i4: "\<forall>e \<in> set []. \<not> server_answers 1 e"
    by simp
  have i5: "run (fst (dispatch ?init (Close 1))) [] = (?init', [])"
    by simp
  have i6: "is_response_to 1 (initialize_result 1)"
    by (simp add: is_response_to_def initialize_result_def)
  have started: "init ?init' = In_progress 1"
    and queue: "queuedInitialize ?init' = [(2, JNum 2)]"
    and there: "clients ?init' = [2]"
    by (simp_all add: eval_defs)
  have same': "?init' = fst (run (new_mux oxlintSpec)
           [Accept, FromClient 1 (initialize_request 1), Accept,
            FromClient 2 (initialize_request 2), Close 1])"
    by (simp add: split_beta)
  from departed_client_entries [OF i1 i2 i3 i4 i5 i6] started queue there
  have second: "snd (dispatch ?init' (FromServer (initialize_result 1)))
       = [ToClient 2 [(''jsonrpc'', JStr ''2.0''), (''id'', JNum 2),
            (''result'', JObj [(''capabilities'', JObj []), (''initCount'', JNum 1)])]]"
    by (simp add: respondWithCachedInit_def initialize_result_def)
  from h2 h3 h6 first second show ?thesis
    unfolding same same' by simp
qed

subsection \<open>Responses to the bridge's pull requests\<close>

lemma bridge_response_step:
  assumes "is_response_to n resp"
    and "pendingInternalRequests st n = Some (Bridge_pull_diagnostics uri)"
  shows "dispatch st (FromServer resp) =
           bridge_onServerResponse
             (st\<lparr>pendingInternalRequests := (pendingInternalRequests st)(n := None)\<rparr>) uri resp"
  using response_shape [OF assms(1)] assms(2)
  by (simp add: onServerMessage_def onServerResponse_def onInternalServerResponse_def)

lemma publish_internal_update [simp]:
  "publishDiagnosticsToNonPullClients (st\<lparr>pendingInternalRequests := x\<rparr>) =
     publishDiagnosticsToNonPullClients st"
  by (rule publish_cong) simp_all









subsection \<open>A client before its \<open>initialize\<close>\<close>

lemma window_dispatch:
  assumes "clientSupportsPullDiagnostics st c = Some False"
    and "c \<in> set (clients st)" and "c < nextClientId st"
    and "e \<noteq> Close c" and "\<not> initialize_from c e"
  shows "clientSupportsPullDiagnostics (fst (dispatch st e)) c = Some False
       \<and> c \<in> set (clients (fst (dispatch st e)))
       \<and> c < nextClientId (fst (dispatch st e))"
proof (cases e)
  case Accept
  then show ?thesis using assms by (simp add: addClient_def Let_def)
next
  case (Close c')
  then show ?thesis using assms by (simp add: onClose_def Let_def)
next
  case (FromClient c' msg)
  then show ?thesis using assms
    by (auto simp: client_defs is_initialize_request_def Let_def
             split: option.splits InitState.splits json.splits)
next
  case (FromServer msg)
  then show ?thesis using assms(1-3)
    by (auto simp: server_defs Let_def split_beta
             split: option.splits InitState.splits json.splits PendingInternalRequest.splits)
next
  case (DebounceExpired uri)
  then show ?thesis using assms(1-3) by simp
qed

lemma window_run:
  assumes "clientSupportsPullDiagnostics st c = Some False"
    and "c \<in> set (clients st)" and "c < nextClientId st"
    and "\<forall>e \<in> set evs. e \<noteq> Close c \<and> \<not> initialize_from c e"
  shows "clientSupportsPullDiagnostics (fst (run st evs)) c = Some False
       \<and> c \<in> set (clients (fst (run st evs)))"
  using assms
proof (induction evs arbitrary: st)
  case Nil
  then show ?case by simp
next
  case (Cons e evs)
  from Cons.prems(4) have e: "e \<noteq> Close c" "\<not> initialize_from c e"
    and rest: "\<forall>e \<in> set evs. e \<noteq> Close c \<and> \<not> initialize_from c e"
    by simp_all
  from window_dispatch [OF Cons.prems(1-3) e]
  have "clientSupportsPullDiagnostics (fst (run (fst (dispatch st e)) evs)) c = Some False
       \<and> c \<in> set (clients (fst (run (fst (dispatch st e)) evs)))"
    using rest by (intro Cons.IH) simp_all
  then show ?case by (simp add: split_beta)
qed

text \<open>
  C10. From its acceptance on, and as long as it neither sends an \<open>initialize\<close> request
  nor disconnects, a client is recorded as not supporting pull diagnostics, counts
  towards \<open>hasNonPullClients\<close>, and is among the receivers of every
  \<open>textDocument/publishDiagnostics\<close> the bridge emits.
\<close>

theorem new_client_is_non_pull:
  assumes "dispatch st Accept = (st0, out0)"
    and "\<forall>e \<in> set evs. e \<noteq> Close (nextClientId st) \<and> \<not> initialize_from (nextClientId st) e"
    and "run st0 evs = (st', out)"
  shows "clientSupportsPullDiagnostics st' (nextClientId st) = Some False
       \<and> nextClientId st \<in> set (clients st')
       \<and> hasNonPullClients st'
       \<and> (\<forall>uri ds. ToClient (nextClientId st) (publishDiagnostics uri ds)
              \<in> set (publishDiagnosticsToNonPullClients st' uri ds))
       \<and> (\<forall>b n uri resp. diagnosticsBridge st' = Some b
              \<and> pendingInternalRequests st' n = Some (Bridge_pull_diagnostics uri)
              \<and> is_response_to n resp
            \<longrightarrow> ToClient (nextClientId st)
                  (publishDiagnostics (uri_json uri) (pulled_diagnostics b uri resp))
                  \<in> set (snd (dispatch st' (FromServer resp))))"
proof -
  let ?c = "nextClientId st"
  from assms(1) have st0: "st0 = addClient st" by simp
  have "clientSupportsPullDiagnostics st0 ?c = Some False" "?c \<in> set (clients st0)"
    "?c < nextClientId st0"
    by (simp_all add: st0 addClient_def Let_def)
  from window_run [OF this assms(2)] assms(3)
  have rec: "clientSupportsPullDiagnostics st' ?c = Some False" and conn: "?c \<in> set (clients st')"
    by simp_all
  then have np: "nonPull st' ?c"
    by (simp add: nonPull_def)
  with conn have has: "hasNonPullClients st'"
    by (auto simp: hasNonPullClients_def list_ex_iff)
  have pub: "ToClient ?c (publishDiagnostics uri ds)
              \<in> set (publishDiagnosticsToNonPullClients st' uri ds)" for uri ds
    using np conn by (auto simp: publishDiagnosticsToNonPullClients_def)
  have "ToClient ?c (publishDiagnostics (uri_json uri) (pulled_diagnostics b uri resp))
                  \<in> set (snd (dispatch st' (FromServer resp)))"
    if "diagnosticsBridge st' = Some b"
      "pendingInternalRequests st' n = Some (Bridge_pull_diagnostics uri)"
      "is_response_to n resp" for b n uri resp
    unfolding bridge_response_step [OF that(3,2)] bridge_onServerResponse_out
    using that(1) pub by simp
  with rec conn has pub show ?thesis by blast
qed

text \<open>
  C10 on a client that sends a file event before any \<open>initialize\<close>.
\<close>

theorem new_client_is_non_pull_witness:
  "nextClientId (new_mux tsgoSpec) = 1
   \<and> \<not> initialize_from 1 (FromClient 1 (file_event ''textDocument/didOpen''))
   \<and> \<not> initialize_from 1 (FromServer (initialize_result 9))
   \<and> clientSupportsPullDiagnostics
        (fst (run (fst (dispatch (new_mux tsgoSpec) Accept))
           [FromClient 1 (file_event ''textDocument/didOpen''), FromServer (initialize_result 9)])) 1
       = Some False
   \<and> hasNonPullClients
        (fst (run (fst (dispatch (new_mux tsgoSpec) Accept))
           [FromClient 1 (file_event ''textDocument/didOpen''), FromServer (initialize_result 9)]))"
proof -
  let ?evs = "[FromClient 1 (file_event ''textDocument/didOpen''), FromServer (initialize_result 9)]"
  let ?st0 = "fst (dispatch (new_mux tsgoSpec) Accept)"
  have c: "nextClientId (new_mux tsgoSpec) = 1"
    by (simp add: new_mux_def)
  have h1: "dispatch (new_mux tsgoSpec) Accept = (?st0, [])"
    by simp
  have h2: "\<forall>e \<in> set ?evs. e \<noteq> Close (nextClientId (new_mux tsgoSpec))
       \<and> \<not> initialize_from (nextClientId (new_mux tsgoSpec)) e"
    by (simp add: c is_initialize_request_def file_event_def)
  have h3: "run ?st0 ?evs = (fst (run ?st0 ?evs), snd (run ?st0 ?evs))"
    by simp
  from new_client_is_non_pull [OF h1 h2 h3] h2 c
  show ?thesis by simp
qed

section \<open>Properties of the framer\<close>

subsection \<open>The header that \<open>encodeMessage\<close> writes is read back\<close>

lemma of_char_digit_char: "d < 10 \<Longrightarrow> (of_char (digit_char d) :: nat) = 48 + d"
  by (simp add: digit_char_def)

lemma is_digit_digit_char: "d < 10 \<Longrightarrow> is_digit (digit_char d)"
  by (simp add: is_digit_def of_char_digit_char)

lemma dec_nat_digits: "list_all is_digit (dec_nat n)"
proof (induction n rule: dec_nat.induct)
  case (1 n)
  show ?case
  proof (cases "n < 10")
    case True
    then show ?thesis
      by (subst dec_nat.simps) (simp add: is_digit_digit_char)
  next
    case False
    then have "list_all is_digit (dec_nat (n div 10))" by (rule "1.IH")
    moreover have "is_digit (digit_char (n mod 10))"
      by (rule is_digit_digit_char) simp
    ultimately show ?thesis
      using False by (subst dec_nat.simps) simp
  qed
qed

lemma dec_nat_nonempty: "dec_nat n \<noteq> []"
  by (subst dec_nat.simps) simp

lemma digits_value_snoc:
  "digits_value (s @ [c]) = 10 * digits_value s + (int (of_char c) - 48)"
  by (simp add: digits_value_def)

lemma digits_value_dec_nat: "digits_value (dec_nat n) = int n"
proof (induction n rule: dec_nat.induct)
  case (1 n)
  show ?case
  proof (cases "n < 10")
    case True
    then show ?thesis
      by (subst dec_nat.simps) (simp add: digits_value_def of_char_digit_char)
  next
    case False
    then have "digits_value (dec_nat (n div 10)) = int (n div 10)" by (rule "1.IH")
    moreover have "int n = 10 * int (n div 10) + int (n mod 10)"
      by (simp add: zdiv_int zmod_int)
    moreover have "int (of_char (digit_char (n mod 10))) - 48 = int (n mod 10)"
      by (simp add: of_char_digit_char)
    ultimately have "10 * digits_value (dec_nat (n div 10))
        + (int (of_char (digit_char (n mod 10))) - 48) = int n"
      by (simp only:)
    then show ?thesis
      using False by (subst dec_nat.simps) (simp only: if_False digits_value_snoc)
  qed
qed

lemma digit_facts:
  assumes "is_digit c"
  shows "c \<noteq> CR" "c \<noteq> LF" "c \<noteq> CHR '':''" "c \<noteq> CHR ''-''" "c \<noteq> CHR ''+''" "\<not> is_space c"
  using assms by (auto simp: is_digit_def CR_def LF_def is_space_def)

lemma digits_numeric: "list_all is_digit s \<Longrightarrow> list_all numeric_char s"
  by (induction s) (simp_all add: numeric_char_def)

lemma digits_ascii: "list_all is_digit s \<Longrightarrow> list_all is_ascii s"
  by (induction s) (simp_all add: is_digit_def is_ascii_def)

lemma js_Number_dec_nat:
  assumes "n < 2 ^ 53"
  shows "js_Number (dec_nat n) = Finite (int n)"
proof (cases "dec_nat n")
  case Nil
  then show ?thesis using dec_nat_nonempty by simp
next
  case (Cons c s)
  have all: "list_all is_digit (c # s)"
    using dec_nat_digits [of n] Cons by simp
  then have "is_digit c" by simp
  then have "c \<noteq> CHR ''-''" "c \<noteq> CHR ''+''" by (simp_all add: digit_facts)
  moreover have "digits_value (c # s) = int n"
    using digits_value_dec_nat [of n] Cons by simp
  moreover have "list_all numeric_char (c # s)"
    using all by (rule digits_numeric)
  ultimately show ?thesis
    using all assms by (simp add: Cons unsigned_Number_def)
qed

lemma trim_digits:
  assumes "list_all is_digit s"
  shows "trim (CHR '' '' # s) = s"
proof (cases s rule: rev_cases)
  case Nil
  then show ?thesis by (simp add: trim_def is_space_def)
next
  case (snoc xs x)
  with assms have "is_digit x" by simp
  then have last: "\<not> is_space x" by (simp add: digit_facts)
  have first: "dropWhile is_space s = s"
  proof (cases s)
    case Nil
    then show ?thesis by simp
  next
    case (Cons y ys)
    with assms have "\<not> is_space y" by (simp add: digit_facts)
    then show ?thesis by (simp add: Cons)
  qed
  have "dropWhile is_space (CHR '' '' # s) = s"
    using first by (simp add: is_space_def)
  then show ?thesis
    using last by (simp add: trim_def snoc)
qed

lemma split_colon_none: "CHR '':'' \<notin> set s \<Longrightarrow> split_colon s = [s]"
  by (induction s) auto

lemma split_colon_first:
  "CHR '':'' \<notin> set a \<Longrightarrow> split_colon (a @ CHR '':'' # b) = a # split_colon b"
  by (induction a) auto

lemma split_crlf_none: "CR \<notin> set s \<Longrightarrow> split_crlf s = [s]"
  by (induction s rule: split_crlf.induct) auto

lemma digits_no_colon: "list_all is_digit s \<Longrightarrow> CHR '':'' \<notin> set s"
  by (induction s) (auto simp: is_digit_def)

lemma digits_no_CR: "list_all is_digit s \<Longrightarrow> CR \<notin> set s"
  by (induction s) (auto simp: is_digit_def CR_def)

lemma lower_name: "map to_lower ''Content-Length'' = ''content-length''"
  by code_simp

lemma parse_own_header:
  assumes "n < 2 ^ 53"
  shows "parseContentLength (''Content-Length: '' @ dec_nat n) = Length (int n)"
proof -
  let ?d = "dec_nat n"
  define k where "k = ''Content-Length''"
  have d: "list_all is_digit ?d" by (rule dec_nat_digits)
  have hdr: "''Content-Length: '' @ ?d = k @ CHR '':'' # CHR '' '' # ?d"
    by (simp add: k_def)
  have "CR \<notin> set (''Content-Length: '' @ ?d)"
    using digits_no_CR [OF d] by (simp add: CR_def)
  then have lines: "split_crlf (k @ CHR '':'' # CHR '' '' # ?d) = [k @ CHR '':'' # CHR '' '' # ?d]"
    unfolding hdr by (rule split_crlf_none)
  have "split_colon (k @ CHR '':'' # (CHR '' '' # ?d)) = k # split_colon (CHR '' '' # ?d)"
    by (rule split_colon_first) (simp add: k_def)
  moreover have "split_colon (CHR '' '' # ?d) = [CHR '' '' # ?d]"
    using digits_no_colon [OF d] by (intro split_colon_none) simp
  ultimately have parts: "split_colon (k @ CHR '':'' # CHR '' '' # ?d) = [k, CHR '' '' # ?d]"
    by simp
  have lower: "map to_lower k = ''content-length''"
    unfolding k_def by (rule lower_name)
  have "list_all is_ascii (CHR '' '' # ?d)"
    using digits_ascii [OF d] by (simp add: is_ascii_def)
  then have number: "Number_of_value (CHR '' '' # ?d) = Finite (int n)"
    by (simp add: Number_of_value_def trim_digits [OF d] js_Number_dec_nat [OF assms]
             )
  have "k \<noteq> []"
    by (simp add: k_def)
  then show ?thesis
    unfolding parseContentLength_def hdr lines
    by (simp add: parts lower number)
qed

subsection \<open>The first occurrence of the blank line\<close>

lemma take_length_le:
  assumes "take (length p) s = p"
  shows "length p \<le> length s"
proof -
  have "length (take (length p) s) = length p"
    using assms by simp
  then show ?thesis by simp
qed

lemma take_append_le: "n \<le> length s \<Longrightarrow> take n (s @ t) = take n s"
  by simp

lemma index_of_bound:
  "index_of pat s = Some i \<Longrightarrow> i + length pat \<le> length s \<and> take (length pat) (drop i s) = pat"
proof (induction s arbitrary: i)
  case Nil
  then show ?case by (simp split: if_splits)
next
  case (Cons x xs)
  show ?case
  proof (cases "take (length pat) (x # xs) = pat")
    case True
    with Cons.prems have "i = 0" by simp
    moreover from True have "length pat \<le> length (x # xs)"
      by (rule take_length_le)
    ultimately show ?thesis using True by simp
  next
    case False
    with Cons.prems obtain j where j: "index_of pat xs = Some j" "i = Suc j"
      by auto
    from Cons.IH [OF j(1)] show ?thesis by (simp add: j(2))
  qed
qed

lemma index_of_extend:
  "index_of pat s = Some i \<Longrightarrow> index_of pat (s @ t) = Some i"
proof (induction s arbitrary: i)
  case Nil
  then show ?case by (cases t) (simp_all split: if_splits)
next
  case (Cons x xs)
  show ?case
  proof (cases "take (length pat) (x # xs) = pat")
    case True
    then have "length pat \<le> length (x # xs)"
      by (rule take_length_le)
    then have "take (length pat) ((x # xs) @ t) = take (length pat) (x # xs)"
      by (rule take_append_le)
    then have "take (length pat) ((x # xs) @ t) = pat"
      using True by metis
    with True Cons.prems show ?thesis by simp
  next
    case False
    with Cons.prems obtain j where j: "index_of pat xs = Some j" "i = Suc j"
      by auto
    from index_of_bound [OF j(1)] have "length pat \<le> length (x # xs)" by simp
    then have "take (length pat) ((x # xs) @ t) = take (length pat) (x # xs)"
      by (rule take_append_le)
    with False have "take (length pat) ((x # xs) @ t) \<noteq> pat"
      by metis
    with Cons.IH [OF j(1)] show ?thesis by (simp add: j(2))
  qed
qed

lemma index_of_header:
  "CR \<notin> set h \<Longrightarrow> index_of (CRLF @ CRLF) (h @ CRLF @ CRLF @ b) = Some (length h)"
  by (induction h) (auto simp: CRLF_def)

lemma index_of_short:
  assumes "index_of pat (s @ t) = Some i" and "length s < i + length pat"
  shows "index_of pat s = None"
proof (cases "index_of pat s")
  case None
  then show ?thesis .
next
  case (Some j)
  from index_of_extend [OF Some] assms(1) have "j = i" by simp
  with index_of_bound [OF Some] assms(2) show ?thesis by simp
qed

lemma index_of_long:
  assumes "index_of pat (s @ t) = Some i" and "i + length pat \<le> length s"
  shows "index_of pat s = Some i"
  using assms
proof (induction s arbitrary: i)
  case Nil
  then have "pat = []" "i = 0" by simp_all
  then show ?case by simp
next
  case (Cons x xs)
  show ?case
  proof (cases "take (length pat) ((x # xs) @ t) = pat")
    case True
    with Cons.prems(1) have i: "i = 0" by simp
    from Cons.prems(2) have "length pat \<le> length (x # xs)"
      by (simp add: i)
    then have "take (length pat) ((x # xs) @ t) = take (length pat) (x # xs)"
      by (rule take_append_le)
    with True have "take (length pat) (x # xs) = pat"
      by metis
    with i show ?thesis by simp
  next
    case False
    with Cons.prems(1) obtain j where j: "index_of pat (xs @ t) = Some j" "i = Suc j"
      by auto
    from Cons.prems(2) j(2) have le: "j + length pat \<le> length xs" by simp
    then have "length pat \<le> length (x # xs)" by simp
    then have "take (length pat) ((x # xs) @ t) = take (length pat) (x # xs)"
      by (rule take_append_le)
    with False have "take (length pat) (x # xs) \<noteq> pat"
      by metis
    with Cons.IH [OF j(1) le] show ?thesis by (simp add: j(2))
  qed
qed

subsection \<open>Decoding one encoded message\<close>

lemma encodeMessage_eq:
  "encodeMessage stringify M =
     own_header (utf8 (stringify M)) @ CRLF @ CRLF @ utf8 (stringify M)"
  by (simp add: encodeMessage_def own_header_def Let_def)

lemma own_header_no_CR: "CR \<notin> set (own_header body)"
  using digits_no_CR [OF dec_nat_digits] by (simp add: own_header_def CR_def)

lemma own_header_parse:
  "length body < 2 ^ 53 \<Longrightarrow> parseContentLength (own_header body) = Length (int (length body))"
  unfolding own_header_def by (rule parse_own_header)

lemma length_CRLF [simp]: "length CRLF = 2"
  by (simp add: CRLF_def)

lemma next_frame_prefix:
  assumes "p @ t = own_header body @ CRLF @ CRLF @ body" and "t \<noteq> []"
    and "length body < 2 ^ 53"
  shows "next_frame p = Need_more"
proof -
  let ?h = "own_header body"
  have found: "index_of (CRLF @ CRLF) (p @ t) = Some (length ?h)"
    unfolding assms(1) using own_header_no_CR by (rule index_of_header)
  have len: "length p + length t = length ?h + 4 + length body"
    using arg_cong [OF assms(1), of length] by simp
  show ?thesis
  proof (cases "length p < length ?h + 4")
    case True
    then have "index_of (CRLF @ CRLF) p = None"
      by (intro index_of_short [OF found]) simp
    then show ?thesis by (simp add: next_frame_def)
  next
    case False
    then have "index_of (CRLF @ CRLF) p = Some (length ?h)"
      by (intro index_of_long [OF found]) simp
    moreover have "take (length ?h) p = ?h"
    proof -
      have "take (length ?h) (p @ t) = ?h"
        unfolding assms(1) by simp
      moreover have "length ?h \<le> length p"
        using False by simp
      ultimately show ?thesis by simp
    qed
    moreover have "int (length p) < int (length ?h) + 4 + int (length body)"
      using len assms(2) by (cases t) simp_all
    ultimately show ?thesis
      by (simp add: next_frame_def own_header_parse [OF assms(3)] Let_def)
  qed
qed

lemma next_frame_whole:
  assumes "length body < 2 ^ 53"
  shows "next_frame (own_header body @ CRLF @ CRLF @ body) = Frame body []"
proof -
  let ?h = "own_header body"
  have "index_of (CRLF @ CRLF) (?h @ CRLF @ CRLF @ body) = Some (length ?h)"
    using own_header_no_CR by (rule index_of_header)
  moreover have "js_slice (?h @ CRLF @ CRLF @ body) (int (length ?h) + 4)
                   (int (length ?h) + 4 + int (length body)) = body"
    by (simp add: js_slice_def clamp_index_def Let_def nat_add_distrib)
  moreover have "js_slice_from (?h @ CRLF @ CRLF @ body)
                   (int (length ?h) + 4 + int (length body)) = []"
    by (simp add: js_slice_from_def clamp_index_def nat_add_distrib)
  ultimately show ?thesis
    by (simp add: next_frame_def own_header_parse [OF assms] Let_def)
qed

lemma drain_empty: "drain parse [] = ([], [], None)"
  by (subst drain.simps) (simp add: next_frame_def CRLF_def)

lemma drain_prefix:
  assumes "p @ t = own_header body @ CRLF @ CRLF @ body" and "t \<noteq> []"
    and "length body < 2 ^ 53"
  shows "drain parse p = ([], p, None)"
  by (subst drain.simps) (simp add: next_frame_prefix [OF assms])

lemma drain_whole:
  assumes "JSON_parse parse body = Some M" and "length body < 2 ^ 53"
  shows "drain parse (own_header body @ CRLF @ CRLF @ body) = ([M], [], None)"
  by (subst drain.simps) (simp add: next_frame_whole [OF assms(2)] assms(1) drain_empty)

lemma read_chunks_empty:
  "concat chunks = [] \<Longrightarrow> read_chunks parse [] chunks = ([], None)"
  by (induction chunks) (simp_all add: drain_empty)

lemma read_chunks_one:
  assumes "JSON_parse parse body = Some M" and "length body < 2 ^ 53"
    and "buffer @ concat chunks = own_header body @ CRLF @ CRLF @ body"
    and "concat chunks \<noteq> []"
  shows "read_chunks parse buffer chunks = ([M], None)"
  using assms(3,4)
proof (induction chunks arbitrary: buffer)
  case Nil
  then show ?case by simp
next
  case (Cons chunk chunks)
  show ?case
  proof (cases "concat chunks = []")
    case True
    with Cons.prems(1) have "buffer @ chunk = own_header body @ CRLF @ CRLF @ body"
      by simp
    then have "drain parse (buffer @ chunk) = ([M], [], None)"
      using drain_whole [OF assms(1,2)] by simp
    then show ?thesis
      using read_chunks_empty [OF True, of parse] by simp
  next
    case False
    from Cons.prems(1) have split: "(buffer @ chunk) @ concat chunks = own_header body @ CRLF @ CRLF @ body"
      by simp
    from drain_prefix [OF split False assms(2)]
    have "drain parse (buffer @ chunk) = ([], buffer @ chunk, None)" .
    moreover have "read_chunks parse (buffer @ chunk) chunks = ([M], None)"
      using split False by (rule Cons.IH)
    ultimately show ?thesis by simp
  qed
qed

text \<open>
  C6. Whenever the platform's parser reads the serialized body of a message \<open>M\<close> back
  as \<open>M\<close> (and the body is shorter than \<open>2^53\<close> bytes), decoding the bytes of
  \<open>encodeMessage M\<close>, however the stream cuts them into chunks, yields exactly the one
  message \<open>M\<close> and ends without an error; and the length the decoder reads from the
  header is the number of bytes of the UTF-8 encoding of the serialized text.
\<close>

theorem framing_round_trip:
  assumes "JSON_parse parse (utf8 (stringify M)) = Some M"
    and "length (utf8 (stringify M)) < 2 ^ 53"
    and "concat chunks = encodeMessage stringify M"
  shows "readMessages parse chunks = ([M], None)
       \<and> (\<exists>header. encodeMessage stringify M = header @ CRLF @ CRLF @ utf8 (stringify M)
              \<and> parseContentLength header = Length (int (length (utf8 (stringify M)))))"
proof -
  let ?body = "utf8 (stringify M)"
  have enc: "encodeMessage stringify M = own_header ?body @ CRLF @ CRLF @ ?body"
    by (rule encodeMessage_eq)
  have "[] @ concat chunks = own_header ?body @ CRLF @ CRLF @ ?body"
    using assms(3) enc by simp
  moreover have "concat chunks \<noteq> []"
    using assms(3) enc by (simp add: CRLF_def)
  ultimately have "read_chunks parse [] chunks = ([M], None)"
    by (rule read_chunks_one [OF assms(1,2)])
  then have "readMessages parse chunks = ([M], None)"
    by (simp add: readMessages_def)
  with enc own_header_parse [OF assms(2)] show ?thesis by blast
qed

text \<open>
  C6 on a message whose text has seven characters and eight bytes, arriving in four
  chunks: the header says 8.
\<close>

theorem framing_round_trip_witness:
  "JSON_parse parse_examples (utf8 (stringify_examples e_acute_message)) = Some e_acute_message
   \<and> length (stringify_examples e_acute_message) = 7
   \<and> concat [''Content-Len'', ''gth: 8'' @ CRLF, CRLF @ [CHR ''{'', CHR 0x22, CHR 0xC3],
              [CHR 0xA9, CHR 0x22, CHR '':'', CHR ''1'', CHR ''}'']]
       = encodeMessage stringify_examples e_acute_message
   \<and> readMessages parse_examples
         [''Content-Len'', ''gth: 8'' @ CRLF, CRLF @ [CHR ''{'', CHR 0x22, CHR 0xC3],
          [CHR 0xA9, CHR 0x22, CHR '':'', CHR ''1'', CHR ''}'']]
       = ([e_acute_message], None)"
proof -
  have h1: "JSON_parse parse_examples (utf8 (stringify_examples e_acute_message)) = Some e_acute_message"
    by code_simp
  have "length (utf8 (stringify_examples e_acute_message)) = 8"
    by code_simp
  then have h2: "length (utf8 (stringify_examples e_acute_message)) < 2 ^ 53"
    by simp
  have h3: "concat [''Content-Len'', ''gth: 8'' @ CRLF, CRLF @ [CHR ''{'', CHR 0x22, CHR 0xC3],
              [CHR 0xA9, CHR 0x22, CHR '':'', CHR ''1'', CHR ''}'']]
       = encodeMessage stringify_examples e_acute_message"
    by code_simp
  have chars: "length (stringify_examples e_acute_message) = 7"
    by code_simp
  from framing_round_trip [OF h1 h2 h3] h1 h3 chars show ?thesis by simp
qed

subsection \<open>When decoding fails\<close>





end
